theory Spec2Isabelle
  imports Main "HOL-Library.Sublist"
begin

section \<open>JavaScript values used by the lock manager\<close>

text \<open>
  Strings are lists of code units. A \<^typ>\<open>char\<close> stands for one code unit in the range
  U+0000 .. U+00FF; code units above that range are outside the model.
\<close>

definition nl :: char where
  "nl = CHR 0x0A"

definition is_ws :: "char \<Rightarrow> bool" where
  \<comment> \<open>WhiteSpace and LineTerminator code units below U+0100.\<close>
  "is_ws c = (c \<in> {CHR 0x09, CHR 0x0A, CHR 0x0B, CHR 0x0C, CHR 0x0D, CHR 0x20, CHR 0xA0})"

definition trim :: "string \<Rightarrow> string" where
  \<comment> \<open>\<^verbatim>\<open>String.prototype.trim\<close>\<close>
  "trim s = rev (dropWhile is_ws (rev (dropWhile is_ws s)))"

fun split_on :: "char \<Rightarrow> string \<Rightarrow> string list" where
  \<comment> \<open>\<^verbatim>\<open>s.split(c)\<close> for a one-character separator: never the empty array.\<close>
  "split_on c [] = [[]]"
| "split_on c (x # xs) =
     (if x = c then [] # split_on c xs
      else (case split_on c xs of [] \<Rightarrow> [[x]] | l # ls \<Rightarrow> (x # l) # ls))"

fun str_includes :: "string \<Rightarrow> string \<Rightarrow> bool" where
  \<comment> \<open>\<^verbatim>\<open>s.includes(sub)\<close>, written \<open>str_includes sub s\<close>\<close>
  "str_includes sub [] = (sub = [])"
| "str_includes sub (x # xs) = (prefix sub (x # xs) \<or> str_includes sub xs)"

datatype number = NaN | Num int

fun truthy :: "number \<Rightarrow> bool" where
  "truthy NaN = False"
| "truthy (Num n) = (n \<noteq> 0)"

fun isNaN :: "number \<Rightarrow> bool" where
  "isNaN NaN = True"
| "isNaN (Num n) = False"

definition digits :: string where
  "digits = ''0123456789''"

definition is_digit :: "char \<Rightarrow> bool" where
  "is_digit c = (c \<in> set digits)"

definition digit_val :: "char \<Rightarrow> nat" where
  "digit_val c = length (takeWhile (\<lambda>d. d \<noteq> c) digits)"

definition digits_val :: "string \<Rightarrow> nat" where
  "digits_val ds = foldl (\<lambda>acc c. 10 * acc + digit_val c) 0 ds"

definition parseInt :: "string \<Rightarrow> number" where
  \<comment> \<open>\<^verbatim>\<open>parseInt(s, 10)\<close>: leading white space, an optional sign, then the longest run of
      decimal digits; \<^verbatim>\<open>NaN\<close> when that run is empty. The value is the exact integer:
      the rounding of a Number above \<open>2 ^ 53\<close> is not modelled, and \<open>process_kill0\<close> below
      rejects every value outside the 32-bit range before it is used.\<close>
  "parseInt s =
     (let t = dropWhile is_ws s;
          neg = (case t of [] \<Rightarrow> False | c # _ \<Rightarrow> c = CHR ''-'');
          r = (case t of [] \<Rightarrow> [] | c # cs \<Rightarrow> if c = CHR ''-'' \<or> c = CHR ''+'' then cs else t);
          ds = takeWhile is_digit r
      in if ds = [] then NaN
         else Num ((if neg then - 1 else 1) * int (digits_val ds)))"

function nat_str :: "nat \<Rightarrow> string" where
  "nat_str n = (if n < 10 then [digits ! n] else nat_str (n div 10) @ [digits ! (n mod 10)])"
  by pat_completeness auto
termination
  by (relation "measure id") auto

declare nat_str.simps [simp del]

definition num_str :: "int \<Rightarrow> string" where
  \<comment> \<open>a template literal \<^verbatim>\<open>`${n}`\<close> for an integer-valued Number\<close>
  "num_str i = (if i < 0 then CHR ''-'' # nat_str (nat (- i)) else nat_str (nat i))"

datatype error = Error (message: string)

section \<open>The process table\<close>

datatype errno = ESRCH | EPERM | EINVAL

fun errno_message :: "errno \<Rightarrow> string" where
  "errno_message ESRCH = ''kill ESRCH''"
| "errno_message EPERM = ''kill EPERM''"
| "errno_message EINVAL = ''kill EINVAL''"

record process =
  process_pid :: int  \<comment> \<open>\<^verbatim>\<open>process.pid\<close>\<close>
  date_now :: int  \<comment> \<open>\<^verbatim>\<open>Date.now()\<close>\<close>
  date_iso :: string  \<comment> \<open>\<^verbatim>\<open>new Date().toISOString()\<close>\<close>
  sys_kill0 :: "int \<Rightarrow> errno option"  \<comment> \<open>\<^verbatim>\<open>kill(pid, 0)\<close> of the host: \<open>None\<close> is success\<close>

definition process_kill0 :: "process \<Rightarrow> int \<Rightarrow> error + unit" where
  \<comment> \<open>\<^verbatim>\<open>process.kill(pid, 0)\<close>: Node throws on a pid that is not a 32-bit integer
      (\<^verbatim>\<open>pid != (pid | 0)\<close>), otherwise it throws what the system call reports.\<close>
  "process_kill0 p pid =
     (if pid < - (2 ^ 31) \<or> 2 ^ 31 \<le> pid then Inl (Error ''ERR_INVALID_ARG_TYPE'')
      else case sys_kill0 p pid of
             None \<Rightarrow> Inr ()
           | Some e \<Rightarrow> Inl (Error (errno_message e)))"

definition isProcessAlive :: "process \<Rightarrow> int \<Rightarrow> bool" where
  \<comment> \<open>\<^verbatim>\<open>try { process.kill(pid, 0); return true } catch { return false }\<close>\<close>
  "isProcessAlive p pid = (case process_kill0 p pid of Inr _ \<Rightarrow> True | Inl _ \<Rightarrow> False)"

section \<open>The file system around a data directory\<close>

text \<open>
  A file-system node is a file with its content or a directory with its entries in listing
  order. The store maps the paths the class touches by name (the data directory, its lock
  marker, its backups) to their nodes; what lies below the data directory is reached through
  its entries. The directory that holds the data directory exists (the constructor has
  created the data directory in it), so a file can always be created next to it.
\<close>

datatype node = File string | Dir "(string \<times> node) list"

record world =
  files :: "string \<rightharpoonup> node"
  fds :: "(nat \<times> string) list"  \<comment> \<open>open descriptors and the path each was opened on\<close>
  console :: "string list"  \<comment> \<open>what \<^verbatim>\<open>console.warn\<close> printed, oldest first\<close>

record nodefs =
  rootDir :: string
  lockFd :: "nat option"

definition existsSync :: "world \<Rightarrow> string \<Rightarrow> bool" where
  "existsSync w p = (files w p \<noteq> None)"

definition enoent_open :: "string \<Rightarrow> string" where
  "enoent_open p = ''ENOENT: no such file or directory, open '' @ [CHR 0x27] @ p @ [CHR 0x27]"

definition eisdir_open :: "string \<Rightarrow> string" where
  "eisdir_open p = ''EISDIR: illegal operation on a directory, open '' @ [CHR 0x27] @ p @ [CHR 0x27]"

definition eisdir_read :: string where
  "eisdir_read = ''EISDIR: illegal operation on a directory, read''"

definition readFileSync :: "world \<Rightarrow> string \<Rightarrow> error + string" where
  "readFileSync w p =
     (case files w p of
        None \<Rightarrow> Inl (Error (enoent_open p))
      | Some (Dir _) \<Rightarrow> Inl (Error eisdir_read)
      | Some (File c) \<Rightarrow> Inr c)"

definition free_fd :: "nat list \<Rightarrow> nat" where
  \<comment> \<open>the lowest descriptor number not in use\<close>
  "free_fd used =
     (case filter (\<lambda>n. n \<notin> set used) [0 ..< Suc (length used)] of
        [] \<Rightarrow> length used
      | n # _ \<Rightarrow> n)"

definition openSync_w :: "world \<Rightarrow> string \<Rightarrow> error + nat \<times> world" where
  \<comment> \<open>\<^verbatim>\<open>fs.openSync(p, 'w')\<close>: creates the file or truncates it; a directory cannot be
      opened for writing.\<close>
  "openSync_w w p =
     (case files w p of
        Some (Dir _) \<Rightarrow> Inl (Error (eisdir_open p))
      | _ \<Rightarrow>
          (let fd = free_fd (map fst (fds w))
           in Inr (fd, w\<lparr>files := (files w)(p \<mapsto> File []), fds := fds w @ [(fd, p)]\<rparr>)))"

definition writeSync :: "world \<Rightarrow> nat \<Rightarrow> string \<Rightarrow> world" where
  \<comment> \<open>\<^verbatim>\<open>fs.writeSync(fd, text)\<close> on a descriptor opened by \<open>openSync_w\<close>: appends.\<close>
  "writeSync w fd text =
     (case map_of (fds w) fd of
        None \<Rightarrow> w
      | Some p \<Rightarrow>
          (case files w p of
             Some (File c) \<Rightarrow> w\<lparr>files := (files w)(p \<mapsto> File (c @ text))\<rparr>
           | _ \<Rightarrow> w))"

section \<open>The directory lock: \<^verbatim>\<open>NodeFS.#acquireLock\<close>\<close>

definition lockPath :: "string \<Rightarrow> string" where
  "lockPath root = root @ ''.lock''"

definition locked_message :: "string \<Rightarrow> int \<Rightarrow> string" where
  "locked_message root pid =
     ''Data directory '' @ [CHR 0x22] @ root @ [CHR 0x22]
       @ '' is locked by another PGlite instance (PID '' @ num_str pid
       @ ''). Close the other instance first, or delete '' @ [CHR 0x22] @ lockPath root @ [CHR 0x22]
       @ '' if the process is no longer running.''"

definition ownerPid :: "string \<Rightarrow> number" where
  \<comment> \<open>\<^verbatim>\<open>parseInt(content.trim().split('\n')[0], 10)\<close>; an index past the end of an array
      reads \<^verbatim>\<open>undefined\<close>, which parses to \<^verbatim>\<open>NaN\<close>.\<close>
  "ownerPid raw =
     (case split_on nl (trim raw) of
        [] \<Rightarrow> NaN
      | l # _ \<Rightarrow> parseInt l)"

definition lock_check :: "process \<Rightarrow> string \<Rightarrow> world \<Rightarrow> error option" where
  \<comment> \<open>the \<^verbatim>\<open>try\<close> block: the error it throws, if any\<close>
  "lock_check p root w =
     (case readFileSync w (lockPath root) of
        Inl e \<Rightarrow> Some e
      | Inr raw \<Rightarrow>
          (case ownerPid raw of
             NaN \<Rightarrow> None
           | Num pid \<Rightarrow>
               if truthy (Num pid) \<and> \<not> isNaN (Num pid) \<and> isProcessAlive p pid
               then Some (Error (locked_message root pid))
               else None))"

definition lock_record :: "process \<Rightarrow> string" where
  "lock_record p = num_str (process_pid p) @ [nl] @ num_str (date_now p) @ [nl]"

definition acquireLock :: "process \<Rightarrow> nodefs \<times> world \<Rightarrow> error + nodefs \<times> world" where
  "acquireLock p s =
     (let self = fst s; w = snd s; root = rootDir self;
          thrown =
            (if existsSync w (lockPath root)
             then (case lock_check p root w of
                     None \<Rightarrow> None
                   | Some e \<Rightarrow> if str_includes ''is locked by'' (message e) then Some e else None)
             else None)
      in case thrown of
           Some e \<Rightarrow> Inl e
         | None \<Rightarrow>
             (case openSync_w w (lockPath root) of
                Inl e \<Rightarrow> Inl e
              | Inr (fd, w1) \<Rightarrow> Inr (self\<lparr>lockFd := Some fd\<rparr>, writeSync w1 fd (lock_record p))))"

text \<open>The state a successful \<open>acquireLock\<close> leaves, in closed form.\<close>

definition lock_taken :: "process \<Rightarrow> nodefs \<Rightarrow> world \<Rightarrow> nodefs \<times> world" where
  "lock_taken p self w =
     (let fd = free_fd (map fst (fds w))
      in (self\<lparr>lockFd := Some fd\<rparr>,
          w\<lparr>files := (files w)(lockPath (rootDir self) \<mapsto> File (lock_record p)),
            fds := fds w @ [(fd, lockPath (rootDir self))]\<rparr>))"

text \<open>
  Vocabulary for where a path lies: the last component of a path, the path up to and
  including its last separator, and whether a path lies below a directory.
\<close>

definition base_of :: "string \<Rightarrow> string" where
  "base_of p = rev (takeWhile (\<lambda>c. c \<noteq> CHR ''/'') (rev p))"

definition parent_of :: "string \<Rightarrow> string" where
  "parent_of p = rev (dropWhile (\<lambda>c. c \<noteq> CHR ''/'') (rev p))"

definition below :: "string \<Rightarrow> string \<Rightarrow> bool" where
  "below d p = (if d \<noteq> [] \<and> last d = CHR ''/'' then strict_prefix d p else prefix (d @ ''/'') p)"

section \<open>Partial initialisation: \<^verbatim>\<open>NodeFS.#cleanPartialInit\<close>\<close>

definition renameSync :: "world \<Rightarrow> string \<Rightarrow> string \<Rightarrow> error + world" where
  \<comment> \<open>\<^verbatim>\<open>fs.renameSync(old, new)\<close> with the rules of \<^verbatim>\<open>rename(2)\<close>: an existing target is
      replaced when it is a file (by a file) or an empty directory (by a directory).\<close>
  "renameSync w old new =
     (case files w old of
        None \<Rightarrow> Inl (Error ''ENOENT: no such file or directory, rename'')
      | Some n \<Rightarrow>
          (let moved = w\<lparr>files := (files w)(old := None, new \<mapsto> n)\<rparr>
           in case (n, files w new) of
                (_, None) \<Rightarrow> Inr moved
              | (Dir _, Some (Dir [])) \<Rightarrow> Inr moved
              | (Dir _, Some (Dir (_ # _))) \<Rightarrow> Inl (Error ''ENOTEMPTY: directory not empty, rename'')
              | (Dir _, Some (File _)) \<Rightarrow> Inl (Error ''ENOTDIR: not a directory, rename'')
              | (File _, Some (Dir _)) \<Rightarrow> Inl (Error ''EISDIR: illegal operation on a directory, rename'')
              | (File _, Some (File _)) \<Rightarrow> Inr moved))"

definition mkdirSync :: "world \<Rightarrow> string \<Rightarrow> error + world" where
  "mkdirSync w p =
     (case files w p of
        Some _ \<Rightarrow> Inl (Error ''EEXIST: file already exists, mkdir'')
      | None \<Rightarrow> Inr (w\<lparr>files := (files w)(p \<mapsto> Dir [])\<rparr>))"

definition readdirSync :: "world \<Rightarrow> string \<Rightarrow> error + string list" where
  "readdirSync w p =
     (case files w p of
        None \<Rightarrow> Inl (Error ''ENOENT: no such file or directory, scandir'')
      | Some (File _) \<Rightarrow> Inl (Error ''ENOTDIR: not a directory, scandir'')
      | Some (Dir es) \<Rightarrow> Inr (map fst es))"

definition child :: "world \<Rightarrow> string \<Rightarrow> string \<Rightarrow> node option" where
  \<comment> \<open>the node at \<^verbatim>\<open>path.join(d, name)\<close>\<close>
  "child w d name = (case files w d of Some (Dir es) \<Rightarrow> map_of es name | _ \<Rightarrow> None)"

definition existsSync_in :: "world \<Rightarrow> string \<Rightarrow> string \<Rightarrow> bool" where
  \<comment> \<open>\<^verbatim>\<open>fs.existsSync(path.join(d, name))\<close>\<close>
  "existsSync_in w d name = (child w d name \<noteq> None)"

definition readdirSync_in :: "world \<Rightarrow> string \<Rightarrow> string \<Rightarrow> error + string list" where
  \<comment> \<open>\<^verbatim>\<open>fs.readdirSync(path.join(d, name))\<close>\<close>
  "readdirSync_in w d name =
     (case child w d name of
        None \<Rightarrow> Inl (Error ''ENOENT: no such file or directory, scandir'')
      | Some (File _) \<Rightarrow> Inl (Error ''ENOTDIR: not a directory, scandir'')
      | Some (Dir es) \<Rightarrow> Inr (map fst es))"

definition timestamp :: "process \<Rightarrow> string" where
  \<comment> \<open>\<^verbatim>\<open>new Date().toISOString().replace(/[:.]/g, '-')\<close>\<close>
  "timestamp p = map (\<lambda>c. if c = CHR '':'' \<or> c = CHR ''.'' then CHR ''-'' else c) (date_iso p)"

definition backupPath :: "process \<Rightarrow> string \<Rightarrow> string" where
  "backupPath p root = root @ ''.corrupt-'' @ timestamp p"

definition backup_warning :: "process \<Rightarrow> string \<Rightarrow> string" where
  "backup_warning p root =
     ''PGlite: Detected partially-initialized data directory. Moved to '' @ [CHR 0x22]
       @ backupPath p root @ [CHR 0x22] @ '' for recovery. A fresh database will be created.''"

text \<open>
  Both functions below return the error thrown, if any, with the world as it is at that
  moment: the effects made before a throw stay.
\<close>

definition moveDataDirToBackup :: "process \<Rightarrow> nodefs \<Rightarrow> world \<Rightarrow> error option \<times> world" where
  "moveDataDirToBackup p self w =
     (case renameSync w (rootDir self) (backupPath p (rootDir self)) of
        Inl e \<Rightarrow> (Some e, w)
      | Inr w1 \<Rightarrow>
          (case mkdirSync w1 (rootDir self) of
             Inl e \<Rightarrow> (Some e, w1)
           | Inr w2 \<Rightarrow> (None, w2\<lparr>console := console w2 @ [backup_warning p (rootDir self)]\<rparr>)))"

definition cleanPartialInit_try :: "process \<Rightarrow> nodefs \<Rightarrow> world \<Rightarrow> error option \<times> world" where
  \<comment> \<open>the body of the \<^verbatim>\<open>try\<close> block\<close>
  "cleanPartialInit_try p self w =
     (case readdirSync w (rootDir self) of
        Inl e \<Rightarrow> (Some e, w)
      | Inr entries \<Rightarrow>
          if length entries = 0 then (None, w)
          else if \<not> existsSync_in w (rootDir self) ''PG_VERSION''
          then moveDataDirToBackup p self w
          else if existsSync_in w (rootDir self) ''base''
          then (case readdirSync_in w (rootDir self) ''base'' of
                  Inl e \<Rightarrow> (Some e, w)
                | Inr databases \<Rightarrow>
                    if length databases < 3 then moveDataDirToBackup p self w else (None, w))
          else moveDataDirToBackup p self w)"

definition cleanPartialInit :: "process \<Rightarrow> nodefs \<Rightarrow> world \<Rightarrow> world" where
  \<comment> \<open>the \<^verbatim>\<open>catch\<close> swallows every error\<close>
  "cleanPartialInit p self w = snd (cleanPartialInit_try p self w)"

text \<open>The world after a directory node \<open>nd\<close> was moved aside and replaced by an empty one.\<close>

definition quarantined :: "process \<Rightarrow> nodefs \<Rightarrow> node \<Rightarrow> world \<Rightarrow> world" where
  "quarantined p self nd w =
     w\<lparr>files := (files w)(rootDir self := None,
                            backupPath p (rootDir self) \<mapsto> nd,
                            rootDir self \<mapsto> Dir []),
       console := console w @ [backup_warning p (rootDir self)]\<rparr>"

section \<open>The crash-injection harness: \<^verbatim>\<open>crashTest\<close>\<close>

text \<open>
  \<^verbatim>\<open>crashTest\<close> registers handlers on the child process and two timers, and the event loop
  runs them one at a time. The model is the state of the closure variables and a step
  function that runs the handler of one event; a run is the fold of the steps over the
  events in the order the event loop delivers them. The delays of the timers are not part
  of the model: a timer event is any moment at which an armed timer fires, and the
  properties hold for every order of events.
\<close>

datatype ipc =
  Str string  \<comment> \<open>a message that is a string\<close>
| Other string  \<comment> \<open>any other value (its JSON text): never \<^verbatim>\<open>===\<close> a string\<close>

record options =
  killAfterMs :: nat
  signal :: string
  killOnMessage :: "string option"  \<comment> \<open>\<open>None\<close> is \<^verbatim>\<open>null\<close>\<close>

record crash_result =
  workerKilled :: bool
  workerError :: "string option"
  workerMessages :: "ipc list"  \<comment> \<open>the array \<^verbatim>\<open>messages\<close> itself, not a copy\<close>
  workerExitCode :: "int option"
  workerSignal :: "string option"
  stdout :: string
  stderr :: string

record harness =
  messages :: "ipc list"
  error_seen :: "string option"  \<comment> \<open>the variable \<^verbatim>\<open>workerError\<close>\<close>
  killed :: bool
  killTimer :: bool  \<comment> \<open>the kill timer is armed: started, not fired, not cleared\<close>
  safetyTimer :: bool  \<comment> \<open>the safety timer is armed\<close>
  sent :: "string list"  \<comment> \<open>the signals handed to \<^verbatim>\<open>child.kill\<close>, oldest first\<close>
  out :: string  \<comment> \<open>the variable \<^verbatim>\<open>stdout\<close>\<close>
  err :: string  \<comment> \<open>the variable \<^verbatim>\<open>stderr\<close>\<close>
  promise :: "crash_result option"  \<comment> \<open>the object the promise resolved with, if it has,
    as it reads now\<close>

datatype event =
  Message ipc
| ErrorEvent string
| Exit "int option" "string option"  \<comment> \<open>exit code and signal: the one that does not apply is \<^verbatim>\<open>null\<close>\<close>
| StdoutData string
| StderrData string
| KillTimerFires
| SafetyTimerFires

fun js_truthy :: "string option \<Rightarrow> bool" where
  "js_truthy None = False"
| "js_truthy (Some s) = (s \<noteq> [])"

definition init :: "options \<Rightarrow> harness" where
  \<comment> \<open>the state when \<^verbatim>\<open>crashTest\<close> has set up the child: the kill timer is started only
      without a message trigger, the safety timer always\<close>
  "init opts =
     \<lparr>messages = [], error_seen = None, killed = False,
      killTimer = (\<not> js_truthy (killOnMessage opts)), safetyTimer = True,
      sent = [], out = [], err = [], promise = None\<rparr>"

fun step :: "options \<Rightarrow> harness \<Rightarrow> event \<Rightarrow> harness" where
  \<comment> \<open>\<^verbatim>\<open>messages.push(msg)\<close> mutates the one array that the resolved object also holds as
      \<^verbatim>\<open>workerMessages\<close>: a message that arrives after the exit event shows there too.\<close>
  "step opts s (Message msg) =
     (let s1 = s\<lparr>messages := messages s @ [msg],
                 promise := map_option (\<lambda>r. r\<lparr>workerMessages := messages s @ [msg]\<rparr>) (promise s)\<rparr>
      in if js_truthy (killOnMessage opts) \<and> Some msg = map_option Str (killOnMessage opts)
            \<and> \<not> killed s1
         then s1\<lparr>killed := True, killTimer := False, sent := sent s1 @ [signal opts]\<rparr>
         else s1)"
| "step opts s (ErrorEvent m) = s\<lparr>error_seen := Some m\<rparr>"
| "step opts s (Exit code sig) =
     (let s1 = s\<lparr>killTimer := False\<rparr>
      in case promise s1 of
           Some _ \<Rightarrow> s1
         | None \<Rightarrow>
             s1\<lparr>promise := Some
                  \<lparr>workerKilled = (sig = Some (signal opts) \<or> killed s1),
                   workerError = error_seen s1,
                   workerMessages = messages s1,
                   workerExitCode = code,
                   workerSignal = sig,
                   stdout = out s1,
                   stderr = err s1\<rparr>\<rparr>)"
| "step opts s (StdoutData d) = s\<lparr>out := out s @ d\<rparr>"
| "step opts s (StderrData d) = s\<lparr>err := err s @ d\<rparr>"
| "step opts s KillTimerFires =
     (if killTimer s
      then (let s1 = s\<lparr>killTimer := False\<rparr>
            in if \<not> killed s1 then s1\<lparr>killed := True, sent := sent s1 @ [signal opts]\<rparr> else s1)
      else s)"
| "step opts s SafetyTimerFires =
     (if safetyTimer s
      then (let s1 = s\<lparr>safetyTimer := False\<rparr>
            in if \<not> killed s1 then s1\<lparr>killed := True, sent := sent s1 @ [''SIGKILL'']\<rparr> else s1)
      else s)"

definition run :: "options \<Rightarrow> event list \<Rightarrow> harness" where
  "run opts evs = foldl (step opts) (init opts) evs"

section \<open>The verification pipeline: \<^verbatim>\<open>verifyIntegrity\<close>\<close>

text \<open>
  The engine is a collaborator: a handle of any type \<open>'h\<close> and a function that runs one
  statement on it, answers with the rows or with the message of the error it rejects with,
  and returns the handle as the statement left it.
\<close>

type_synonym row = "(string \<times> string) list"

type_synonym 'h engine = "'h \<Rightarrow> string \<Rightarrow> (string + row list) \<times> 'h"

definition field :: "row \<Rightarrow> string \<Rightarrow> string" where
  \<comment> \<open>\<^verbatim>\<open>`${row.name}`\<close>: a missing property prints as \<^verbatim>\<open>undefined\<close>\<close>
  "field r name = (case map_of r name of None \<Rightarrow> ''undefined'' | Some v \<Rightarrow> v)"

definition health_sql :: string where
  "health_sql = ''SELECT 1 as health_check''"

definition tables_sql :: string where
  "tables_sql = [nl] @ ''      SELECT tablename FROM pg_tables'' @ [nl]
     @ ''      WHERE schemaname = '' @ [CHR 0x27] @ ''public'' @ [CHR 0x27] @ [nl]
     @ ''      ORDER BY tablename'' @ [nl] @ ''    ''"

definition indexes_sql :: string where
  "indexes_sql = [nl] @ ''      SELECT indexname, tablename FROM pg_indexes'' @ [nl]
     @ ''      WHERE schemaname = '' @ [CHR 0x27] @ ''public'' @ [CHR 0x27] @ [nl]
     @ ''      ORDER BY indexname'' @ [nl] @ ''    ''"

definition count_sql :: "string \<Rightarrow> string" where
  "count_sql t = ''SELECT count(*) FROM '' @ [CHR 0x22] @ t @ [CHR 0x22]"

definition count_failed :: "row \<Rightarrow> string \<Rightarrow> string" where
  "count_failed r m = ''Count on '' @ field r ''tablename'' @ '' failed: '' @ m"

definition index_failed :: "row \<Rightarrow> string \<Rightarrow> string" where
  "index_failed r m = ''Index check on '' @ field r ''indexname'' @ '' failed: '' @ m"

record integrity_report =
  intact :: bool
  issues :: "string list"

fun check_rows :: "'h engine \<Rightarrow> (row \<Rightarrow> string \<Rightarrow> string) \<Rightarrow> row list \<Rightarrow> 'h \<Rightarrow> string list
    \<Rightarrow> string list \<times> 'h" where
  \<comment> \<open>both \<^verbatim>\<open>for\<close> loops: one count query per row on the row's table; a failure pushes
      one issue and the loop goes on\<close>
  "check_rows q failed [] h acc = (acc, h)"
| "check_rows q failed (r # rs) h acc =
     (case q h (count_sql (field r ''tablename'')) of
        (Inl m, h') \<Rightarrow> check_rows q failed rs h' (acc @ [failed r m])
      | (Inr _, h') \<Rightarrow> check_rows q failed rs h' acc)"

definition verifyIntegrity :: "'h engine \<Rightarrow> 'h \<Rightarrow> integrity_report \<times> 'h" where
  "verifyIntegrity q h =
     (case q h health_sql of
        (Inl m, h1) \<Rightarrow> (\<lparr>intact = False, issues = [''Basic query failed: '' @ m]\<rparr>, h1)
      | (Inr _, h1) \<Rightarrow>
          (let (i1, h2) =
                 (case q h1 tables_sql of
                    (Inl m, h') \<Rightarrow> ([''Table listing failed: '' @ m], h')
                  | (Inr tables, h') \<Rightarrow> check_rows q count_failed tables h' []);
               (i2, h3) =
                 (case q h2 indexes_sql of
                    (Inl m, h') \<Rightarrow> (i1 @ [''Index listing failed: '' @ m], h')
                  | (Inr indexes, h') \<Rightarrow> check_rows q index_failed indexes h' i1)
           in (\<lparr>intact = (length i2 = 0), issues = i2\<rparr>, h3)))"

text \<open>
  An engine whose answer depends on the statement only; its handle is the list of the
  statements run so far, so a run shows which statements were attempted.
\<close>

definition logging :: "(string \<Rightarrow> string + row list) \<Rightarrow> string list engine" where
  "logging respond log sql = (respond sql, log @ [sql])"

text \<open>The issues and the statements of one layer of checks, in closed form.\<close>

definition row_issues :: "(string \<Rightarrow> string + row list) \<Rightarrow> (row \<Rightarrow> string \<Rightarrow> string) \<Rightarrow> row list
    \<Rightarrow> string list" where
  "row_issues respond failed rs =
     concat (map (\<lambda>r. case respond (count_sql (field r ''tablename'')) of
                         Inl m \<Rightarrow> [failed r m] | Inr _ \<Rightarrow> []) rs)"

definition layer_issues :: "(string \<Rightarrow> string + row list) \<Rightarrow> string \<Rightarrow> string
    \<Rightarrow> (row \<Rightarrow> string \<Rightarrow> string) \<Rightarrow> string list" where
  "layer_issues respond listing label failed =
     (case respond listing of
        Inl m \<Rightarrow> [label @ m]
      | Inr rs \<Rightarrow> row_issues respond failed rs)"

definition layer_queries :: "(string \<Rightarrow> string + row list) \<Rightarrow> string \<Rightarrow> string list" where
  "layer_queries respond listing =
     listing # (case respond listing of
                  Inl m \<Rightarrow> []
                | Inr rs \<Rightarrow> map (\<lambda>r. count_sql (field r ''tablename'')) rs)"

section \<open>The verification pipeline: \<^verbatim>\<open>tryOpen\<close>\<close>

text \<open>
  What the engine does when asked to open a directory is an input of the model: the
  dynamic import may fail, the constructor may throw, and otherwise \<^verbatim>\<open>db.waitReady\<close> resolves
  or rejects some milliseconds after the race starts, or stays pending for ever.
  \<^verbatim>\<open>Promise.race\<close> settles as the first of its promises to settle; which of two promises
  wins when both settle in the same millisecond is left to the parameter \<open>timer_first\<close>.
\<close>

datatype readiness = ReadyAt nat | RejectsAt nat error | Pending

datatype 'h open_attempt = ImportFails error | ConstructorThrows error | Constructed 'h readiness

record 'h open_result =
  success :: bool
  db :: "'h option"
  error :: "error option"

definition timer_delay :: "int \<Rightarrow> nat" where
  \<comment> \<open>\<^verbatim>\<open>setTimeout(f, ms)\<close>: a delay below 1 or above \<open>2 ^ 31 - 1\<close> is set to 1\<close>
  "timer_delay ms = (if ms < 1 \<or> 2147483647 < ms then 1 else nat ms)"

definition timeout_message :: "int \<Rightarrow> string" where
  "timeout_message ms = ''PGlite open timed out after '' @ num_str ms @ ''ms (likely corrupted)''"

definition race :: "bool \<Rightarrow> readiness \<Rightarrow> int \<Rightarrow> error + unit" where
  \<comment> \<open>\<^verbatim>\<open>await Promise.race([db.waitReady, new Promise((_, reject) => setTimeout(...))])\<close>\<close>
  "race timer_first r timeoutMs =
     (let T = timer_delay timeoutMs;
          timed_out = Inl (Error (timeout_message timeoutMs))
      in case r of
           Pending \<Rightarrow> timed_out
         | ReadyAt t \<Rightarrow> if t < T \<or> (t = T \<and> \<not> timer_first) then Inr () else timed_out
         | RejectsAt t e \<Rightarrow> if t < T \<or> (t = T \<and> \<not> timer_first) then Inl e else timed_out)"

definition tryOpen :: "bool \<Rightarrow> 'h open_attempt \<Rightarrow> int \<Rightarrow> error + 'h open_result" where
  \<comment> \<open>\<open>Inl\<close>: the promise \<^verbatim>\<open>tryOpen\<close> returns rejects (the import is outside the \<^verbatim>\<open>try\<close>)\<close>
  "tryOpen timer_first attempt timeoutMs =
     (case attempt of
        ImportFails e \<Rightarrow> Inl e
      | ConstructorThrows e \<Rightarrow> Inr \<lparr>success = False, db = None, error = Some e\<rparr>
      | Constructed h r \<Rightarrow>
          (case race timer_first r timeoutMs of
             Inr _ \<Rightarrow> Inr \<lparr>success = True, db = Some h, error = None\<rparr>
           | Inl e \<Rightarrow> Inr \<lparr>success = False, db = None, error = Some e\<rparr>))"

section \<open>Example inputs\<close>

definition ex_proc :: process where
  "ex_proc = \<lparr>process_pid = 4242, date_now = 1700000000000,
              date_iso = ''2023-11-14T22:13:20.000Z'',
              sys_kill0 = (\<lambda>pid. if pid = 4242 \<or> pid = 777 then None
                                  else if pid = 1 then Some EPERM else Some ESRCH)\<rparr>"

definition ex_self :: nodefs where
  "ex_self = \<lparr>rootDir = ''/tmp/db'', lockFd = None\<rparr>"

definition ex_world :: "string \<Rightarrow> world" where
  "ex_world lock = \<lparr>files = [''/tmp/db'' \<mapsto> Dir [], ''/tmp/db.lock'' \<mapsto> File lock],
                    fds = [], console = []\<rparr>"

definition ex_fresh :: world where
  "ex_fresh = \<lparr>files = [''/tmp/db'' \<mapsto> Dir []], fds = [(0, ''/dev/stdin'')], console = []\<rparr>"

definition ex_data :: "(string \<times> node) list \<Rightarrow> world" where
  "ex_data es = \<lparr>files = [''/tmp/db'' \<mapsto> Dir es], fds = [], console = []\<rparr>"

definition stale_foreign :: string where
  "stale_foreign = ''1'' @ [nl] @ ''1690000000000'' @ [nl]"

definition live_lock :: string where
  "live_lock = ''777'' @ [nl] @ ''1699999999999'' @ [nl]"

definition dead_lock :: string where
  "dead_lock = ''  555 '' @ [nl] @ ''1699999999999'' @ [nl]"

definition corrupt_lock :: string where
  "corrupt_lock = ''pid=777''"

definition early_dir :: "(string \<times> node) list" where
  "early_dir = [(''postgresql.conf'', File [])]"

definition partial_dir :: "(string \<times> node) list" where
  "partial_dir = [(''PG_VERSION'', File ''17''), (''base'', Dir [(''1'', Dir [])])]"

definition valid_dir :: "(string \<times> node) list" where
  "valid_dir = [(''PG_VERSION'', File ''17''),
                (''base'', Dir [(''1'', Dir []), (''4'', Dir []), (''5'', Dir [])])]"

definition sigterm_opts :: options where
  "sigterm_opts = \<lparr>killAfterMs = 500, signal = ''SIGTERM'', killOnMessage = None\<rparr>"

definition trigger_opts :: options where
  "trigger_opts = \<lparr>killAfterMs = 500, signal = ''SIGKILL'', killOnMessage = Some ''inserting''\<rparr>"

definition dead_engine :: "string \<Rightarrow> string + row list" where
  "dead_engine sql = Inl ''connection lost''"

definition torn_engine :: "string \<Rightarrow> string + row list" where
  \<comment> \<open>two tables, one index; counting \<^verbatim>\<open>orders\<close> fails\<close>
  "torn_engine sql =
     (if sql = health_sql then Inr [[(''health_check'', ''1'')]]
      else if sql = tables_sql then Inr [[(''tablename'', ''items'')], [(''tablename'', ''orders'')]]
      else if sql = indexes_sql then Inr [[(''indexname'', ''orders_pkey''), (''tablename'', ''orders'')]]
      else if sql = count_sql ''orders'' then Inl ''could not read block 0''
      else Inr [[(''count'', ''3'')]])"

section \<open>Properties of the directory lock\<close>

lemma free_fd_fresh: "free_fd used \<notin> set used"
proof (cases "filter (\<lambda>n. n \<notin> set used) [0 ..< Suc (length used)]")
  case Nil
  then have "\<forall>n \<in> set [0 ..< Suc (length used)]. \<not> n \<notin> set used"
    by (simp only: filter_empty_conv)
  then have "{0 ..< Suc (length used)} \<subseteq> set used"
    unfolding set_upt by blast
  then have "card {0 ..< Suc (length used)} \<le> card (set used)"
    by (intro card_mono) auto
  moreover have "card (set used) \<le> length used" by (rule card_length)
  ultimately have False by simp
  then show ?thesis ..
next
  case (Cons n ns)
  then have "n \<in> set (filter (\<lambda>n. n \<notin> set used) [0 ..< Suc (length used)])" by simp
  then have "n \<notin> set used" unfolding set_filter by blast
  with Cons show ?thesis by (simp add: free_fd_def)
qed

lemma str_includes_mid: "str_includes sub (a @ sub @ b)"
proof (induction a)
  case Nil
  have "prefix sub (sub @ b)" by simp
  then show ?case by (cases "sub @ b") auto
next
  case (Cons x a)
  then show ?case by simp
qed

lemma locked_message_includes: "str_includes ''is locked by'' (locked_message root pid)"
proof -
  have "locked_message root pid =
      (''Data directory '' @ [CHR 0x22] @ root @ [CHR 0x22] @ '' '') @ ''is locked by'' @
      ('' another PGlite instance (PID '' @ num_str pid
       @ ''). Close the other instance first, or delete '' @ [CHR 0x22] @ lockPath root @ [CHR 0x22]
       @ '' if the process is no longer running.'')"
    by (simp add: locked_message_def)
  then show ?thesis by (simp only: str_includes_mid)
qed

lemma eisdir_read_not_lock: "\<not> str_includes ''is locked by'' eisdir_read"
  by (simp add: eisdir_read_def)

lemma open_write_taken:
  assumes "\<And>es. files w (lockPath (rootDir self)) \<noteq> Some (Dir es)"
  shows "(case openSync_w w (lockPath (rootDir self)) of
            Inl e \<Rightarrow> Inl e
          | Inr (fd, w1) \<Rightarrow> Inr (self\<lparr>lockFd := Some fd\<rparr>, writeSync w1 fd (lock_record p)))
         = Inr (lock_taken p self w)"
proof -
  define fd where "fd = free_fd (map fst (fds w))"
  have fresh: "fd \<notin> fst ` set (fds w)"
    using free_fd_fresh [of "map fst (fds w)"] by (simp add: fd_def)
  then have "map_of (fds w) fd = None"
    by (simp only: map_of_eq_None_iff not_False_eq_True)
  then have look: "map_of (fds w @ [(fd, lockPath (rootDir self))]) fd = Some (lockPath (rootDir self))"
    by (simp add: map_add_def)
  have op: "openSync_w w (lockPath (rootDir self))
      = Inr (fd, w\<lparr>files := (files w)(lockPath (rootDir self) \<mapsto> File []),
                   fds := fds w @ [(fd, lockPath (rootDir self))]\<rparr>)"
    using assms by (auto simp: openSync_w_def fd_def Let_def split: option.splits node.splits)
  show ?thesis
    using look by (simp add: op writeSync_def lock_taken_def Let_def fd_def [symmetric])
qed

lemma acquireLock_absent:
  assumes "files w (lockPath (rootDir self)) = None"
  shows "acquireLock p (self, w) = Inr (lock_taken p self w)"
proof -
  have "\<And>es. files w (lockPath (rootDir self)) \<noteq> Some (Dir es)" using assms by simp
  from open_write_taken [OF this] show ?thesis
    using assms by (simp add: acquireLock_def existsSync_def Let_def)
qed

lemma acquireLock_file:
  assumes "files w (lockPath (rootDir self)) = Some (File raw)"
  shows "acquireLock p (self, w) =
     (case ownerPid raw of
        NaN \<Rightarrow> Inr (lock_taken p self w)
      | Num pid \<Rightarrow>
          if pid \<noteq> 0 \<and> isProcessAlive p pid
          then Inl (Error (locked_message (rootDir self) pid))
          else Inr (lock_taken p self w))"
proof -
  have "\<And>es. files w (lockPath (rootDir self)) \<noteq> Some (Dir es)" using assms by simp
  from open_write_taken [OF this] show ?thesis
    using assms
    by (simp add: acquireLock_def existsSync_def Let_def lock_check_def readFileSync_def
        locked_message_includes split: number.splits)
qed

lemma acquireLock_dir:
  assumes "files w (lockPath (rootDir self)) = Some (Dir es)"
  shows "acquireLock p (self, w) = Inl (Error (eisdir_open (lockPath (rootDir self))))"
  using assms
  by (simp add: acquireLock_def existsSync_def Let_def lock_check_def readFileSync_def
      openSync_w_def eisdir_read_not_lock)

lemma lock_taken_files:
  "files (snd (lock_taken p self w)) = (files w)(lockPath (rootDir self) \<mapsto> File (lock_record p))"
  by (simp add: lock_taken_def Let_def)

lemma locked_message_not_eisdir:
  "locked_message root pid \<noteq> eisdir_open q" "eisdir_open q \<noteq> locked_message root pid"
  by (simp_all add: locked_message_def eisdir_open_def)

text \<open>
  Claim C9. The liveness probe answers true exactly when \<^verbatim>\<open>process.kill(pid, 0)\<close> raises
  nothing, and false on every exception. A permission error (the process exists and belongs
  to another user) therefore counts as dead: \<open>acquireLock\<close> on a record naming such a pid
  succeeds and overwrites the record with the caller's own.
\<close>

theorem isProcessAlive_false_on_any_exception:
  "(isProcessAlive p pid \<longleftrightarrow> process_kill0 p pid = Inr ())
   \<and> (\<forall>e. process_kill0 p pid = Inl e \<longrightarrow> \<not> isProcessAlive p pid)
   \<and> (- (2 ^ 31) \<le> pid \<and> pid < 2 ^ 31 \<and> sys_kill0 p pid = Some EPERM
        \<and> files w (lockPath (rootDir self)) = Some (File raw) \<and> ownerPid raw = Num pid
      \<longrightarrow> \<not> isProcessAlive p pid
          \<and> (\<exists>self' w'. acquireLock p (self, w) = Inr (self', w')
                \<and> files w' (lockPath (rootDir self)) = Some (File (lock_record p))))"
proof (intro conjI allI impI)
  show "isProcessAlive p pid \<longleftrightarrow> process_kill0 p pid = Inr ()"
    by (simp add: isProcessAlive_def split: sum.splits)
next
  fix e assume "process_kill0 p pid = Inl e"
  then show "\<not> isProcessAlive p pid" by (simp add: isProcessAlive_def)
next
  assume h: "- (2 ^ 31) \<le> pid \<and> pid < 2 ^ 31 \<and> sys_kill0 p pid = Some EPERM
        \<and> files w (lockPath (rootDir self)) = Some (File raw) \<and> ownerPid raw = Num pid"
  then show dead: "\<not> isProcessAlive p pid"
    by (simp add: isProcessAlive_def process_kill0_def)
  from h have "acquireLock p (self, w) = Inr (lock_taken p self w)"
    using dead by (simp add: acquireLock_file)
  then have "acquireLock p (self, w) = Inr (fst (lock_taken p self w), snd (lock_taken p self w))
      \<and> files (snd (lock_taken p self w)) (lockPath (rootDir self)) = Some (File (lock_record p))"
    by (simp add: lock_taken_files)
  then show "\<exists>self' w'. acquireLock p (self, w) = Inr (self', w')
                \<and> files w' (lockPath (rootDir self)) = Some (File (lock_record p))"
    by blast
qed

lemmas ex_defs = ex_proc_def ex_self_def ex_world_def lockPath_def

lemmas eval_defs = ownerPid_def trim_def nl_def is_ws_def parseInt_def is_digit_def digits_def
  digits_val_def digit_val_def

lemma ex_owner_1: "ownerPid stale_foreign = Num 1"
  by (simp add: stale_foreign_def eval_defs)

lemma ex_lock_record: "lock_record ex_proc = ''4242'' @ [nl] @ ''1700000000000'' @ [nl]"
  by (simp add: lock_record_def ex_proc_def num_str_def nat_str.simps digits_def)

theorem isProcessAlive_false_on_any_exception_witness:
  "sys_kill0 ex_proc 1 = Some EPERM
   \<and> \<not> isProcessAlive ex_proc 1
   \<and> (\<exists>self' w'. acquireLock ex_proc (ex_self, ex_world stale_foreign) = Inr (self', w')
         \<and> files w' ''/tmp/db.lock'' = Some (File (''4242'' @ [nl] @ ''1700000000000'' @ [nl])))"
proof -
  have h: "- (2 ^ 31) \<le> (1::int) \<and> (1::int) < 2 ^ 31 \<and> sys_kill0 ex_proc 1 = Some EPERM
       \<and> files (ex_world stale_foreign) (lockPath (rootDir ex_self)) = Some (File stale_foreign)
       \<and> ownerPid stale_foreign = Num 1"
    by (simp add: ex_defs ex_owner_1)
  have L: "lockPath (rootDir ex_self) = ''/tmp/db.lock''" by (simp add: ex_defs)
  from isProcessAlive_false_on_any_exception
      [of ex_proc 1 "ex_world stale_foreign" ex_self stale_foreign] h
  have "\<not> isProcessAlive ex_proc 1
      \<and> (\<exists>self' w'. acquireLock ex_proc (ex_self, ex_world stale_foreign) = Inr (self', w')
            \<and> files w' (lockPath (rootDir ex_self)) = Some (File (lock_record ex_proc)))"
    by blast
  with h show ?thesis by (simp only: L ex_lock_record) simp
qed

lemma acquireLock_success:
  assumes "acquireLock p (self, w) = Inr (lock_taken p self w)"
  shows "\<exists>self' w'. acquireLock p (self, w) = Inr (self', w')
           \<and> files w' (lockPath (rootDir self)) = Some (File (lock_record p))"
proof -
  from assms have "acquireLock p (self, w) = Inr (fst (lock_taken p self w), snd (lock_taken p self w))
      \<and> files (snd (lock_taken p self w)) (lockPath (rootDir self)) = Some (File (lock_record p))"
    by (simp add: lock_taken_files)
  then show ?thesis by blast
qed

text \<open>
  Claim C1. \<open>acquireLock\<close> fails with the lock-held error exactly when the marker is a file
  whose first line parses to a pid that passes the liveness probe, and the error names that
  pid. A pid is a number the guard \<^verbatim>\<open>pid && !isNaN(pid)\<close> lets through: an integer other than
  zero. A record whose owner is dead, and a record whose first line is no pid, are both
  overwritten with the caller's record, and the call succeeds.
\<close>

theorem acquireLock_fails_iff_live_owner:
  "((\<exists>n. acquireLock p (self, w) = Inl (Error (locked_message (rootDir self) n)))
      \<longleftrightarrow> (\<exists>r n. files w (lockPath (rootDir self)) = Some (File r) \<and> ownerPid r = Num n
                  \<and> n \<noteq> 0 \<and> isProcessAlive p n))
   \<and> (files w (lockPath (rootDir self)) = Some (File raw) \<and> ownerPid raw = Num pid
         \<and> pid \<noteq> 0 \<and> isProcessAlive p pid
       \<longrightarrow> acquireLock p (self, w) = Inl (Error (locked_message (rootDir self) pid)))
   \<and> (files w (lockPath (rootDir self)) = Some (File raw) \<and> ownerPid raw = Num pid
         \<and> \<not> isProcessAlive p pid
       \<longrightarrow> (\<exists>self' w'. acquireLock p (self, w) = Inr (self', w')
              \<and> files w' (lockPath (rootDir self)) = Some (File (lock_record p))))
   \<and> (files w (lockPath (rootDir self)) = Some (File raw) \<and> \<not> truthy (ownerPid raw)
       \<longrightarrow> (\<exists>self' w'. acquireLock p (self, w) = Inr (self', w')
              \<and> files w' (lockPath (rootDir self)) = Some (File (lock_record p))))"
proof (intro conjI impI)
  show "(\<exists>n. acquireLock p (self, w) = Inl (Error (locked_message (rootDir self) n)))
      \<longleftrightarrow> (\<exists>r n. files w (lockPath (rootDir self)) = Some (File r) \<and> ownerPid r = Num n
                  \<and> n \<noteq> 0 \<and> isProcessAlive p n)"
  proof (cases "files w (lockPath (rootDir self))")
    case None
    then show ?thesis by (simp add: acquireLock_absent)
  next
    case (Some nd)
    show ?thesis
    proof (cases nd)
      case (File r)
      with Some have f: "files w (lockPath (rootDir self)) = Some (File r)" by simp
      show ?thesis
        by (auto simp: acquireLock_file [OF f] f split: number.splits if_splits)
    next
      case (Dir es)
      with Some have d: "files w (lockPath (rootDir self)) = Some (Dir es)" by simp
      show ?thesis
        by (simp add: acquireLock_dir [OF d] d locked_message_not_eisdir)
    qed
  qed
next
  assume "files w (lockPath (rootDir self)) = Some (File raw) \<and> ownerPid raw = Num pid
         \<and> pid \<noteq> 0 \<and> isProcessAlive p pid"
  then show "acquireLock p (self, w) = Inl (Error (locked_message (rootDir self) pid))"
    by (simp add: acquireLock_file)
next
  assume "files w (lockPath (rootDir self)) = Some (File raw) \<and> ownerPid raw = Num pid
         \<and> \<not> isProcessAlive p pid"
  then have "acquireLock p (self, w) = Inr (lock_taken p self w)"
    by (simp add: acquireLock_file)
  then show "\<exists>self' w'. acquireLock p (self, w) = Inr (self', w')
              \<and> files w' (lockPath (rootDir self)) = Some (File (lock_record p))"
    by (rule acquireLock_success)
next
  assume "files w (lockPath (rootDir self)) = Some (File raw) \<and> \<not> truthy (ownerPid raw)"
  then have "acquireLock p (self, w) = Inr (lock_taken p self w)"
    by (cases "ownerPid raw") (simp_all add: acquireLock_file)
  then show "\<exists>self' w'. acquireLock p (self, w) = Inr (self', w')
              \<and> files w' (lockPath (rootDir self)) = Some (File (lock_record p))"
    by (rule acquireLock_success)
qed

lemma ex_owner_live: "ownerPid live_lock = Num 777"
  by (simp add: live_lock_def eval_defs)

lemma ex_owner_dead: "ownerPid dead_lock = Num 555"
  by (simp add: dead_lock_def eval_defs)

lemma ex_owner_corrupt: "ownerPid corrupt_lock = NaN"
  by (simp add: corrupt_lock_def eval_defs)

lemma ex_alive: "isProcessAlive ex_proc 777" "\<not> isProcessAlive ex_proc 555"
  by (simp_all add: isProcessAlive_def process_kill0_def ex_proc_def)

lemma ex_lock_path: "lockPath (rootDir ex_self) = ''/tmp/db.lock''"
  by (simp add: ex_defs)

lemma ex_lock_file: "files (ex_world c) ''/tmp/db.lock'' = Some (File c)"
  by (simp add: ex_world_def)

theorem acquireLock_fails_iff_live_owner_witness:
  "acquireLock ex_proc (ex_self, ex_world live_lock) = Inl (Error (locked_message ''/tmp/db'' 777))
   \<and> (\<exists>self' w'. acquireLock ex_proc (ex_self, ex_world dead_lock) = Inr (self', w')
         \<and> files w' ''/tmp/db.lock'' = Some (File (''4242'' @ [nl] @ ''1700000000000'' @ [nl])))
   \<and> (\<exists>self' w'. acquireLock ex_proc (ex_self, ex_world corrupt_lock) = Inr (self', w')
         \<and> files w' ''/tmp/db.lock'' = Some (File (''4242'' @ [nl] @ ''1700000000000'' @ [nl])))"
proof -
  have live: "files (ex_world live_lock) (lockPath (rootDir ex_self)) = Some (File live_lock)
      \<and> ownerPid live_lock = Num 777 \<and> (777::int) \<noteq> 0 \<and> isProcessAlive ex_proc 777"
    by (simp add: ex_lock_path ex_lock_file ex_owner_live ex_alive)
  have dead: "files (ex_world dead_lock) (lockPath (rootDir ex_self)) = Some (File dead_lock)
      \<and> ownerPid dead_lock = Num 555 \<and> \<not> isProcessAlive ex_proc 555"
    by (simp add: ex_lock_path ex_lock_file ex_owner_dead ex_alive)
  have corrupt: "files (ex_world corrupt_lock) (lockPath (rootDir ex_self)) = Some (File corrupt_lock)
      \<and> \<not> truthy (ownerPid corrupt_lock)"
    by (simp add: ex_lock_path ex_lock_file ex_owner_corrupt)
  have 1: "acquireLock ex_proc (ex_self, ex_world live_lock)
      = Inl (Error (locked_message (rootDir ex_self) 777))"
    using acquireLock_fails_iff_live_owner [of ex_proc ex_self "ex_world live_lock" live_lock 777] live
    by blast
  have 2: "\<exists>self' w'. acquireLock ex_proc (ex_self, ex_world dead_lock) = Inr (self', w')
         \<and> files w' (lockPath (rootDir ex_self)) = Some (File (lock_record ex_proc))"
    using acquireLock_fails_iff_live_owner [of ex_proc ex_self "ex_world dead_lock" dead_lock 555] dead
    by blast
  have 3: "\<exists>self' w'. acquireLock ex_proc (ex_self, ex_world corrupt_lock) = Inr (self', w')
         \<and> files w' (lockPath (rootDir ex_self)) = Some (File (lock_record ex_proc))"
    using acquireLock_fails_iff_live_owner [of ex_proc ex_self "ex_world corrupt_lock" corrupt_lock 0] corrupt
    by blast
  have r: "rootDir ex_self = ''/tmp/db''" by (simp add: ex_self_def)
  from 1 2 3 show ?thesis by (simp add: ex_lock_record r lockPath_def)
qed

lemma lock_taken_props:
  assumes "acquireLock p (self, w) = Inr (self', w')"
  shows "(self', w') = lock_taken p self w"
proof (cases "files w (lockPath (rootDir self))")
  case None
  with assms show ?thesis by (simp add: acquireLock_absent)
next
  case (Some nd)
  show ?thesis
  proof (cases nd)
    case (File r)
    with Some have f: "files w (lockPath (rootDir self)) = Some (File r)" by simp
    from assms show ?thesis
      by (auto simp: acquireLock_file [OF f] split: number.splits if_splits)
  next
    case (Dir es)
    with Some have d: "files w (lockPath (rootDir self)) = Some (Dir es)" by simp
    from assms show ?thesis by (simp add: acquireLock_dir [OF d])
  qed
qed

lemma parent_of_lockPath: "parent_of (lockPath root) = parent_of root"
  by (simp add: parent_of_def lockPath_def)

lemma base_of_lockPath: "base_of (lockPath root) = base_of root @ ''.lock''"
  by (simp add: base_of_def lockPath_def)

lemma base_of_nonempty: "root \<noteq> [] \<Longrightarrow> last root \<noteq> CHR ''/'' \<Longrightarrow> base_of root \<noteq> []"
  by (cases root rule: rev_cases) (simp_all add: base_of_def)

lemma lockPath_not_below: "root \<noteq> [] \<Longrightarrow> last root \<noteq> CHR ''/'' \<Longrightarrow> \<not> below root (lockPath root)"
  by (simp add: below_def lockPath_def)

lemma lockPath_of_root_directory: "below ''/'' (lockPath ''/'')"
  by (simp add: below_def lockPath_def)

text \<open>
  Claim C7. After a successful \<open>acquireLock\<close> the marker file holds exactly the caller's pid,
  a newline, the timestamp and a newline; a fresh descriptor on the marker is stored in
  \<open>lockFd\<close> and is still open; no other path changes, so nothing is written into the data
  directory. The marker path is the data directory path with \<^verbatim>\<open>.lock\<close> appended: for a
  resolved data directory path (no trailing separator, so not the file-system root) it has
  the same parent, a different name, and does not lie below the data directory.
\<close>

theorem acquireLock_writes_record:
  "acquireLock p (self, w) = Inr (self', w') \<longrightarrow>
     files w' (lockPath (rootDir self))
       = Some (File (num_str (process_pid p) @ [nl] @ num_str (date_now p) @ [nl]))
     \<and> (\<exists>fd. lockFd self' = Some fd \<and> (fd, lockPath (rootDir self)) \<in> set (fds w')
            \<and> fd \<notin> fst ` set (fds w))
     \<and> set (fds w) \<subseteq> set (fds w')
     \<and> (\<forall>q. q \<noteq> lockPath (rootDir self) \<longrightarrow> files w' q = files w q)
     \<and> lockPath (rootDir self) = rootDir self @ ''.lock''
     \<and> lockPath (rootDir self) \<noteq> rootDir self
     \<and> (rootDir self \<noteq> [] \<and> last (rootDir self) \<noteq> CHR ''/'' \<longrightarrow>
          \<not> below (rootDir self) (lockPath (rootDir self))
          \<and> parent_of (lockPath (rootDir self)) = parent_of (rootDir self)
          \<and> base_of (lockPath (rootDir self)) = base_of (rootDir self) @ ''.lock''
          \<and> base_of (rootDir self) \<noteq> [])"
proof
  assume a: "acquireLock p (self, w) = Inr (self', w')"
  have fresh: "free_fd (map fst (fds w)) \<notin> fst ` set (fds w)"
    using free_fd_fresh [of "map fst (fds w)"] by simp
  from lock_taken_props [OF a]
  have s: "self' = self\<lparr>lockFd := Some (free_fd (map fst (fds w)))\<rparr>"
    and w: "w' = w\<lparr>files := (files w)(lockPath (rootDir self) \<mapsto> File (lock_record p)),
            fds := fds w @ [(free_fd (map fst (fds w)), lockPath (rootDir self))]\<rparr>"
    by (simp_all add: lock_taken_def Let_def)
  show "files w' (lockPath (rootDir self))
       = Some (File (num_str (process_pid p) @ [nl] @ num_str (date_now p) @ [nl]))
     \<and> (\<exists>fd. lockFd self' = Some fd \<and> (fd, lockPath (rootDir self)) \<in> set (fds w')
            \<and> fd \<notin> fst ` set (fds w))
     \<and> set (fds w) \<subseteq> set (fds w')
     \<and> (\<forall>q. q \<noteq> lockPath (rootDir self) \<longrightarrow> files w' q = files w q)
     \<and> lockPath (rootDir self) = rootDir self @ ''.lock''
     \<and> lockPath (rootDir self) \<noteq> rootDir self
     \<and> (rootDir self \<noteq> [] \<and> last (rootDir self) \<noteq> CHR ''/'' \<longrightarrow>
          \<not> below (rootDir self) (lockPath (rootDir self))
          \<and> parent_of (lockPath (rootDir self)) = parent_of (rootDir self)
          \<and> base_of (lockPath (rootDir self)) = base_of (rootDir self) @ ''.lock''
          \<and> base_of (rootDir self) \<noteq> [])"
  proof (intro conjI impI allI)
    show "files w' (lockPath (rootDir self))
       = Some (File (num_str (process_pid p) @ [nl] @ num_str (date_now p) @ [nl]))"
      by (simp add: w lock_record_def)
    show "\<exists>fd. lockFd self' = Some fd \<and> (fd, lockPath (rootDir self)) \<in> set (fds w')
            \<and> fd \<notin> fst ` set (fds w)"
      using fresh by (simp add: s w)
    show "set (fds w) \<subseteq> set (fds w')" by (auto simp: w)
    show "lockPath (rootDir self) = rootDir self @ ''.lock''" by (simp add: lockPath_def)
    show "lockPath (rootDir self) \<noteq> rootDir self" by (simp add: lockPath_def)
  next
    fix q assume "q \<noteq> lockPath (rootDir self)"
    then show "files w' q = files w q" by (simp add: w)
  next
    assume r: "rootDir self \<noteq> [] \<and> last (rootDir self) \<noteq> CHR ''/''"
    then show "\<not> below (rootDir self) (lockPath (rootDir self))"
      by (simp add: lockPath_not_below)
    show "parent_of (lockPath (rootDir self)) = parent_of (rootDir self)"
      by (rule parent_of_lockPath)
    show "base_of (lockPath (rootDir self)) = base_of (rootDir self) @ ''.lock''"
      by (rule base_of_lockPath)
    from r show "base_of (rootDir self) \<noteq> []" by (simp add: base_of_nonempty)
  qed
qed

lemma ex_acquire_fresh:
  "acquireLock ex_proc (ex_self, ex_fresh) = Inr (lock_taken ex_proc ex_self ex_fresh)"
  by (rule acquireLock_absent) (simp add: ex_fresh_def ex_defs)

lemma ex_root: "rootDir ex_self = ''/tmp/db''"
  by (simp add: ex_self_def)

theorem acquireLock_writes_record_witness:
  "\<exists>self' w'. acquireLock ex_proc (ex_self, ex_fresh) = Inr (self', w')
     \<and> files w' ''/tmp/db.lock'' = Some (File (''4242'' @ [nl] @ ''1700000000000'' @ [nl]))
     \<and> (\<exists>fd. lockFd self' = Some fd \<and> (fd, ''/tmp/db.lock'') \<in> set (fds w'))
     \<and> files w' ''/tmp/db'' = Some (Dir [])
     \<and> \<not> below ''/tmp/db'' ''/tmp/db.lock''"
proof -
  define lt where "lt = lock_taken ex_proc ex_self ex_fresh"
  have a: "acquireLock ex_proc (ex_self, ex_fresh) = Inr (fst lt, snd lt)"
    using ex_acquire_fresh by (simp add: lt_def)
  have r: "rootDir ex_self \<noteq> [] \<and> last (rootDir ex_self) \<noteq> CHR ''/''"
    by (simp add: ex_root)
  have q: "''/tmp/db'' \<noteq> lockPath (rootDir ex_self)"
    by (simp add: ex_root lockPath_def)
  have old: "files ex_fresh ''/tmp/db'' = Some (Dir [])"
    by (simp add: ex_fresh_def)
  have rec: "num_str (process_pid ex_proc) @ [nl] @ num_str (date_now ex_proc) @ [nl]
      = ''4242'' @ [nl] @ ''1700000000000'' @ [nl]"
    using ex_lock_record by (simp add: lock_record_def)
  from acquireLock_writes_record [of ex_proc ex_self ex_fresh "fst lt" "snd lt"] a r q
  have "files (snd lt) (lockPath (rootDir ex_self))
       = Some (File (num_str (process_pid ex_proc) @ [nl] @ num_str (date_now ex_proc) @ [nl]))
     \<and> (\<exists>fd. lockFd (fst lt) = Some fd \<and> (fd, lockPath (rootDir ex_self)) \<in> set (fds (snd lt)))
     \<and> files (snd lt) ''/tmp/db'' = files ex_fresh ''/tmp/db''
     \<and> \<not> below (rootDir ex_self) (lockPath (rootDir ex_self))"
    by blast
  then have "files (snd lt) ''/tmp/db.lock'' = Some (File (''4242'' @ [nl] @ ''1700000000000'' @ [nl]))
     \<and> (\<exists>fd. lockFd (fst lt) = Some fd \<and> (fd, ''/tmp/db.lock'') \<in> set (fds (snd lt)))
     \<and> files (snd lt) ''/tmp/db'' = Some (Dir [])
     \<and> \<not> below ''/tmp/db'' ''/tmp/db.lock''"
    unfolding rec old ex_lock_path ex_root by (simp add: lockPath_def)
  with a show ?thesis by blast
qed

subsection \<open>The record read back\<close>

lemma digit_chars:
  assumes "d < 10"
  shows "is_digit (digits ! d)" and "\<not> is_ws (digits ! d)" and "digits ! d \<noteq> nl"
    and "digit_val (digits ! d) = d"
proof -
  from assms have "d \<in> {0, 1, 2, 3, 4, 5, 6, 7, 8, 9}" by auto
  then show "is_digit (digits ! d)" and "\<not> is_ws (digits ! d)" and "digits ! d \<noteq> nl"
    and "digit_val (digits ! d) = d"
    by (auto simp: is_digit_def is_ws_def digits_def nl_def digit_val_def)
qed

lemma nat_str_digits: "\<forall>c \<in> set (nat_str n). is_digit c \<and> \<not> is_ws c \<and> c \<noteq> nl"
proof (induction n rule: nat_str.induct)
  case (1 n)
  show ?case
  proof (cases "n < 10")
    case True
    then show ?thesis by (subst nat_str.simps) (simp add: digit_chars)
  next
    case False
    with 1 have "\<forall>c \<in> set (nat_str (n div 10)). is_digit c \<and> \<not> is_ws c \<and> c \<noteq> nl" by simp
    moreover have "n mod 10 < 10" by simp
    ultimately show ?thesis using False
      by (subst nat_str.simps) (simp add: digit_chars)
  qed
qed

lemma nat_str_nonempty: "nat_str n \<noteq> []"
  by (subst nat_str.simps) simp

lemma digits_val_snoc: "digits_val (ds @ [c]) = 10 * digits_val ds + digit_val c"
  by (simp add: digits_val_def)

lemma digits_val_nat_str: "digits_val (nat_str n) = n"
proof (induction n rule: nat_str.induct)
  case (1 n)
  show ?case
  proof (cases "n < 10")
    case True
    then show ?thesis by (subst nat_str.simps) (simp add: digits_val_def digit_chars)
  next
    case False
    with 1 have "digits_val (nat_str (n div 10)) = n div 10" by simp
    then show ?thesis using False
      by (subst nat_str.simps) (simp add: digits_val_snoc digit_chars)
  qed
qed

lemma parseInt_nat_str: "parseInt (nat_str n) = Num (int n)"
proof -
  obtain c cs where s: "nat_str n = c # cs"
    using nat_str_nonempty [of n] by (cases "nat_str n") auto
  have all: "\<forall>x \<in> set (c # cs). is_digit x \<and> \<not> is_ws x \<and> x \<noteq> nl"
    using nat_str_digits [of n] by (simp add: s)
  then have c: "is_digit c" "\<not> is_ws c" by simp_all
  then have sign: "c \<noteq> CHR ''-''" "c \<noteq> CHR ''+''"
    by (auto simp: is_digit_def digits_def)
  from all have tw: "takeWhile is_digit cs = cs"
    by (intro takeWhile_eq_all_conv [THEN iffD2]) simp
  have "parseInt (c # cs) = Num (int (digits_val (c # cs)))"
    using c sign by (simp add: parseInt_def Let_def tw)
  then show ?thesis using digits_val_nat_str [of n] by (simp add: s)
qed

lemma split_on_first_line:
  "nl \<notin> set l \<Longrightarrow> \<exists>ls. split_on nl (l @ nl # rest) = l # ls"
  by (induction l) (auto simp: nl_def split: list.splits)

lemma trim_lock_record:
  assumes "0 \<le> date_now p" and "0 \<le> process_pid p"
  shows "trim (lock_record p) = nat_str (nat (process_pid p)) @ nl # nat_str (nat (date_now p))"
proof -
  let ?a = "nat_str (nat (process_pid p))" and ?b = "nat_str (nat (date_now p))"
  have rec: "lock_record p = ?a @ nl # ?b @ [nl]"
    using assms by (simp add: lock_record_def num_str_def)
  obtain c cs where a: "?a = c # cs"
    using nat_str_nonempty [of "nat (process_pid p)"] by (cases ?a) auto
  have "\<not> is_ws c" using nat_str_digits [of "nat (process_pid p)"] by (simp add: a)
  then have front: "dropWhile is_ws (?a @ nl # ?b @ [nl]) = ?a @ nl # ?b @ [nl]"
    by (simp add: a)
  obtain bs z where b: "?b = bs @ [z]"
    using nat_str_nonempty [of "nat (date_now p)"] by (cases ?b rule: rev_cases) auto
  have "\<not> is_ws z" using nat_str_digits [of "nat (date_now p)"] by (simp add: b)
  moreover have "is_ws nl" by (simp add: is_ws_def nl_def)
  ultimately have cut: "dropWhile is_ws (rev (?a @ nl # ?b @ [nl])) = rev (?a @ nl # ?b)"
    by (simp add: b)
  show ?thesis unfolding rec trim_def front cut by simp
qed

lemma ownerPid_lock_record:
  assumes "0 \<le> date_now p" and "0 \<le> process_pid p"
  shows "ownerPid (lock_record p) = Num (process_pid p)"
proof -
  have "nl \<notin> set (nat_str (nat (process_pid p)))"
    using nat_str_digits [of "nat (process_pid p)"] by auto
  from split_on_first_line [OF this]
  obtain ls where "split_on nl (nat_str (nat (process_pid p)) @ nl # nat_str (nat (date_now p)))
      = nat_str (nat (process_pid p)) # ls"
    by blast
  then show ?thesis
    using assms by (simp add: ownerPid_def trim_lock_record parseInt_nat_str)
qed

text \<open>
  The record one process writes is read back by the next \<open>acquireLock\<close> as the writer's pid:
  while the writer is alive, a second process is refused with the writer's pid, and once it
  is dead the record is taken over.
\<close>

lemma acquireLock_after_acquireLock:
  assumes "acquireLock p (self, w) = Inr (self', w')"
    and "0 < process_pid p" and "0 \<le> date_now p" and "rootDir self2 = rootDir self"
  shows "acquireLock p2 (self2, w') =
     (if isProcessAlive p2 (process_pid p)
      then Inl (Error (locked_message (rootDir self) (process_pid p)))
      else Inr (lock_taken p2 self2 w'))"
proof -
  from lock_taken_props [OF assms(1)]
  have "files w' (lockPath (rootDir self2)) = Some (File (lock_record p))"
    by (simp add: lock_taken_def Let_def assms(4))
  from acquireLock_file [OF this, of p2] show ?thesis
    using assms(2,3) by (simp add: ownerPid_lock_record assms(4))
qed

section \<open>Properties of the partial-initialisation detector\<close>

lemma backupPath_neq_root: "backupPath p root \<noteq> root"
  by (simp add: backupPath_def)

lemma moveDataDirToBackup_free:
  assumes "files w (rootDir self) = Some nd" and "files w (backupPath p (rootDir self)) = None"
  shows "moveDataDirToBackup p self w = (None, quarantined p self nd w)"
  using assms backupPath_neq_root [of p "rootDir self"]
  by (cases nd)
    (simp_all add: moveDataDirToBackup_def renameSync_def mkdirSync_def quarantined_def Let_def)

lemma cleanPartialInit_dir:
  assumes "files w (rootDir self) = Some (Dir es)"
  shows "cleanPartialInit_try p self w =
     (if es = [] then (None, w)
      else if map_of es ''PG_VERSION'' = None then moveDataDirToBackup p self w
      else (case map_of es ''base'' of
              None \<Rightarrow> moveDataDirToBackup p self w
            | Some (File c) \<Rightarrow> (Some (Error ''ENOTDIR: not a directory, scandir''), w)
            | Some (Dir ds) \<Rightarrow> if length ds < 3 then moveDataDirToBackup p self w else (None, w)))"
  using assms
  by (simp add: cleanPartialInit_try_def readdirSync_def existsSync_in_def child_def
      readdirSync_in_def split: option.splits node.splits)

lemma cleanPartialInit_unlistable:
  assumes "\<And>es. files w (rootDir self) \<noteq> Some (Dir es)"
  shows "cleanPartialInit p self w = w"
  using assms
  by (simp add: cleanPartialInit_def cleanPartialInit_try_def readdirSync_def
      split: option.splits node.splits)

lemma quarantined_props:
  shows "files (quarantined p self nd w) (backupPath p (rootDir self)) = Some nd"
    and "files (quarantined p self nd w) (rootDir self) = Some (Dir [])"
    and "\<And>q. q \<noteq> rootDir self \<Longrightarrow> q \<noteq> backupPath p (rootDir self)
           \<Longrightarrow> files (quarantined p self nd w) q = files w q"
    and "console (quarantined p self nd w) = console w @ [backup_warning p (rootDir self)]"
    and "fds (quarantined p self nd w) = fds w"
  using backupPath_neq_root [of p "rootDir self"]
  by (simp_all add: quarantined_def)

text \<open>
  Claim C2. On a data directory that can be listed, \<open>cleanPartialInit\<close> does nothing when the
  directory is empty. When it is not empty and the version marker \<^verbatim>\<open>PG_VERSION\<close> is absent,
  or the marker is present and \<^verbatim>\<open>base\<close> is missing or is a directory with fewer than three
  entries, the whole directory is renamed to the timestamped backup path (free at that
  moment), a fresh empty directory is created at the original path, a warning is printed,
  and nothing else changes. When the marker is present and \<^verbatim>\<open>base\<close> has at least three
  entries, the world is left exactly as it was, so a second run changes nothing either
  and no backup appears.
\<close>

theorem cleanPartialInit_quarantines_partial:
  "files w (rootDir self) = Some (Dir es) \<longrightarrow>
     (es = [] \<longrightarrow> cleanPartialInit p self w = w)
     \<and> (es \<noteq> [] \<and> files w (backupPath p (rootDir self)) = None
          \<and> (map_of es ''PG_VERSION'' = None \<or> map_of es ''base'' = None
               \<or> (\<exists>ds. map_of es ''base'' = Some (Dir ds) \<and> length ds < 3))
        \<longrightarrow> files (cleanPartialInit p self w) (backupPath p (rootDir self)) = Some (Dir es)
            \<and> files (cleanPartialInit p self w) (rootDir self) = Some (Dir [])
            \<and> (\<forall>q. q \<noteq> rootDir self \<and> q \<noteq> backupPath p (rootDir self)
                  \<longrightarrow> files (cleanPartialInit p self w) q = files w q)
            \<and> console (cleanPartialInit p self w) = console w @ [backup_warning p (rootDir self)])
     \<and> (map_of es ''PG_VERSION'' \<noteq> None
          \<and> (\<exists>ds. map_of es ''base'' = Some (Dir ds) \<and> 3 \<le> length ds)
        \<longrightarrow> cleanPartialInit p self w = w
            \<and> cleanPartialInit p self (cleanPartialInit p self w) = w)"
proof (intro impI conjI)
  assume d: "files w (rootDir self) = Some (Dir es)"
  note c = cleanPartialInit_dir [OF d, of p]
  { assume "es = []"
    then show "cleanPartialInit p self w = w" by (simp add: cleanPartialInit_def c) }
  { assume h: "es \<noteq> [] \<and> files w (backupPath p (rootDir self)) = None
          \<and> (map_of es ''PG_VERSION'' = None \<or> map_of es ''base'' = None
               \<or> (\<exists>ds. map_of es ''base'' = Some (Dir ds) \<and> length ds < 3))"
    then have "cleanPartialInit_try p self w = moveDataDirToBackup p self w"
      by (auto simp: c)
    with h d have q: "cleanPartialInit p self w = quarantined p self (Dir es) w"
      by (simp add: cleanPartialInit_def moveDataDirToBackup_free)
    show "files (cleanPartialInit p self w) (backupPath p (rootDir self)) = Some (Dir es)"
      and "files (cleanPartialInit p self w) (rootDir self) = Some (Dir [])"
      and "\<forall>q. q \<noteq> rootDir self \<and> q \<noteq> backupPath p (rootDir self)
                  \<longrightarrow> files (cleanPartialInit p self w) q = files w q"
      and "console (cleanPartialInit p self w) = console w @ [backup_warning p (rootDir self)]"
      unfolding q using quarantined_props [where p = p and self = self and nd = "Dir es" and w = w] by simp_all }
  { assume h: "map_of es ''PG_VERSION'' \<noteq> None
          \<and> (\<exists>ds. map_of es ''base'' = Some (Dir ds) \<and> 3 \<le> length ds)"
    then have "es \<noteq> []" by auto
    with h show same: "cleanPartialInit p self w = w"
      by (auto simp: cleanPartialInit_def c)
    then show "cleanPartialInit p self (cleanPartialInit p self w) = w" by simp }
qed

lemma ex_backupPath:
  "backupPath ex_proc ''/tmp/db'' = ''/tmp/db.corrupt-2023-11-14T22-13-20-000Z''"
  by (simp add: backupPath_def timestamp_def ex_proc_def)

lemma ex_data_files:
  "files (ex_data es) (rootDir ex_self) = Some (Dir es)"
  "files (ex_data es) (backupPath ex_proc (rootDir ex_self)) = None"
  by (simp_all add: ex_data_def ex_root ex_backupPath)

theorem cleanPartialInit_quarantines_partial_witness:
  "cleanPartialInit ex_proc ex_self (ex_data []) = ex_data []
   \<and> files (cleanPartialInit ex_proc ex_self (ex_data early_dir))
         ''/tmp/db.corrupt-2023-11-14T22-13-20-000Z'' = Some (Dir early_dir)
   \<and> files (cleanPartialInit ex_proc ex_self (ex_data early_dir)) ''/tmp/db'' = Some (Dir [])
   \<and> files (cleanPartialInit ex_proc ex_self (ex_data partial_dir))
         ''/tmp/db.corrupt-2023-11-14T22-13-20-000Z'' = Some (Dir partial_dir)
   \<and> files (cleanPartialInit ex_proc ex_self (ex_data partial_dir)) ''/tmp/db'' = Some (Dir [])
   \<and> cleanPartialInit ex_proc ex_self (ex_data valid_dir) = ex_data valid_dir
   \<and> cleanPartialInit ex_proc ex_self (cleanPartialInit ex_proc ex_self (ex_data valid_dir))
       = ex_data valid_dir"
proof -
  have early: "early_dir \<noteq> [] \<and> files (ex_data early_dir) (backupPath ex_proc (rootDir ex_self)) = None
      \<and> (map_of early_dir ''PG_VERSION'' = None \<or> map_of early_dir ''base'' = None
           \<or> (\<exists>ds. map_of early_dir ''base'' = Some (Dir ds) \<and> length ds < 3))"
    by (simp add: ex_data_files) (simp add: early_dir_def)
  have part: "partial_dir \<noteq> [] \<and> files (ex_data partial_dir) (backupPath ex_proc (rootDir ex_self)) = None
      \<and> (map_of partial_dir ''PG_VERSION'' = None \<or> map_of partial_dir ''base'' = None
           \<or> (\<exists>ds. map_of partial_dir ''base'' = Some (Dir ds) \<and> length ds < 3))"
    by (simp add: ex_data_files) (simp add: partial_dir_def)
  have valid: "map_of valid_dir ''PG_VERSION'' \<noteq> None
      \<and> (\<exists>ds. map_of valid_dir ''base'' = Some (Dir ds) \<and> 3 \<le> length ds)"
    by (simp add: valid_dir_def)
  have 1: "cleanPartialInit ex_proc ex_self (ex_data []) = ex_data []"
    using cleanPartialInit_quarantines_partial [of "ex_data []" ex_self "[]" ex_proc]
    by (simp add: ex_data_files)
  have 2: "files (cleanPartialInit ex_proc ex_self (ex_data early_dir))
         (backupPath ex_proc (rootDir ex_self)) = Some (Dir early_dir)
      \<and> files (cleanPartialInit ex_proc ex_self (ex_data early_dir)) (rootDir ex_self) = Some (Dir [])"
    using cleanPartialInit_quarantines_partial [of "ex_data early_dir" ex_self early_dir ex_proc]
      early ex_data_files(1) [of early_dir]
    by blast
  have 3: "files (cleanPartialInit ex_proc ex_self (ex_data partial_dir))
         (backupPath ex_proc (rootDir ex_self)) = Some (Dir partial_dir)
      \<and> files (cleanPartialInit ex_proc ex_self (ex_data partial_dir)) (rootDir ex_self) = Some (Dir [])"
    using cleanPartialInit_quarantines_partial [of "ex_data partial_dir" ex_self partial_dir ex_proc]
      part ex_data_files(1) [of partial_dir]
    by blast
  have 4: "cleanPartialInit ex_proc ex_self (ex_data valid_dir) = ex_data valid_dir
      \<and> cleanPartialInit ex_proc ex_self (cleanPartialInit ex_proc ex_self (ex_data valid_dir))
          = ex_data valid_dir"
    using cleanPartialInit_quarantines_partial [of "ex_data valid_dir" ex_self valid_dir ex_proc]
      valid ex_data_files(1) [of valid_dir]
    by blast
  from 1 2 3 4 show ?thesis
    unfolding ex_root ex_backupPath by blast
qed

text \<open>
  When \<^verbatim>\<open>base\<close> exists and is not a directory it cannot be listed; the error is swallowed
  and the data directory is left as it is.
\<close>

lemma cleanPartialInit_base_not_directory:
  assumes "files w (rootDir self) = Some (Dir es)" and "map_of es ''PG_VERSION'' \<noteq> None"
    and "map_of es ''base'' = Some (File c)"
  shows "cleanPartialInit p self w = w"
proof -
  from assms(2) have "es \<noteq> []" by auto
  with assms show ?thesis
    by (auto simp: cleanPartialInit_def cleanPartialInit_dir [OF assms(1)])
qed

section \<open>Properties of the crash-injection harness\<close>

lemma run_snoc: "run opts (evs @ [e]) = step opts (run opts evs) e"
  by (simp add: run_def)

lemma run_append: "run opts (xs @ ys) = foldl (step opts) (run opts xs) ys"
  by (simp add: run_def)

lemma step_killed_iff_sent:
  "(killed s \<longleftrightarrow> sent s \<noteq> []) \<Longrightarrow> (killed (step opts s e) \<longleftrightarrow> sent (step opts s e) \<noteq> [])"
  by (cases e) (auto simp: Let_def split: option.splits)

lemma run_killed_iff_sent: "killed (run opts evs) \<longleftrightarrow> sent (run opts evs) \<noteq> []"
proof (induction evs rule: rev_induct)
  case Nil
  show ?case by (simp add: run_def init_def)
next
  case (snoc e evs)
  then show ?case unfolding run_snoc by (rule step_killed_iff_sent)
qed

lemma step_promise_alias:
  assumes "promise s = Some r" and "workerMessages r = messages s"
  shows "promise (step opts s e) = Some (r\<lparr>workerMessages := messages (step opts s e)\<rparr>)"
proof -
  from assms(2) have same: "r\<lparr>workerMessages := messages s\<rparr> = r" by simp
  show ?thesis
  proof (cases e)
    case (Message msg)
    with assms(1) show ?thesis by (simp add: Let_def)
  next
    case (Exit code sig)
    with assms(1) same show ?thesis by (simp add: Let_def)
  next
    case KillTimerFires
    with assms(1) same show ?thesis by (simp add: Let_def)
  next
    case SafetyTimerFires
    with assms(1) same show ?thesis by (simp add: Let_def)
  qed (use assms(1) same in simp_all)
qed

lemma foldl_promise_alias:
  "promise s = Some r \<Longrightarrow> workerMessages r = messages s \<Longrightarrow>
     promise (foldl (step opts) s evs)
       = Some (r\<lparr>workerMessages := messages (foldl (step opts) s evs)\<rparr>)"
proof (induction evs arbitrary: s r)
  case Nil
  then show ?case by simp
next
  case (Cons e evs)
  let ?r = "r\<lparr>workerMessages := messages (step opts s e)\<rparr>"
  from step_promise_alias [OF Cons.prems, of opts e]
  have p: "promise (step opts s e) = Some ?r" .
  have m: "workerMessages ?r = messages (step opts s e)" by simp
  from Cons.IH [OF p m] show ?case by simp
qed

lemma step_after_kill: "killed s \<Longrightarrow> killed (step opts s e) \<and> sent (step opts s e) = sent s"
  by (cases e) (auto simp: Let_def split: option.splits)

lemma foldl_after_kill:
  "killed s \<Longrightarrow> killed (foldl (step opts) s evs) \<and> sent (foldl (step opts) s evs) = sent s"
proof (induction evs arbitrary: s)
  case Nil
  then show ?case by simp
next
  case (Cons e evs)
  from step_after_kill [OF Cons.prems, of opts e]
  have k: "killed (step opts s e)" and eq: "sent (step opts s e) = sent s" by simp_all
  from Cons.IH [OF k] eq show ?case by simp
qed

lemma step_sent_length:
  assumes "killed s \<longleftrightarrow> sent s \<noteq> []" and "length (sent s) \<le> 1"
  shows "length (sent (step opts s e)) \<le> 1"
proof (cases "killed s")
  case True
  with assms step_after_kill [OF True, of opts e] show ?thesis by simp
next
  case False
  with assms have "sent s = []" by simp
  then show ?thesis by (cases e) (auto simp: Let_def split: option.splits)
qed

lemma run_sent_length: "length (sent (run opts evs)) \<le> 1"
proof (induction evs rule: rev_induct)
  case Nil
  show ?case by (simp add: run_def init_def)
next
  case (snoc e evs)
  from run_killed_iff_sent [of opts evs] snoc show ?case
    unfolding run_snoc by (rule step_sent_length)
qed

lemma step_before_trigger:
  assumes "killOnMessage opts = Some k" and "e \<noteq> Message (Str k)" and "e \<noteq> SafetyTimerFires"
    and "\<not> killed s \<and> sent s = [] \<and> \<not> killTimer s"
  shows "\<not> killed (step opts s e) \<and> sent (step opts s e) = [] \<and> \<not> killTimer (step opts s e)"
  using assms by (cases e) (auto simp: Let_def split: option.splits)

lemma run_before_trigger:
  assumes "killOnMessage opts = Some k" and "k \<noteq> []"
    and "\<forall>e \<in> set pre. e \<noteq> Message (Str k) \<and> e \<noteq> SafetyTimerFires"
  shows "\<not> killed (run opts pre) \<and> sent (run opts pre) = [] \<and> \<not> killTimer (run opts pre)"
  using assms(3)
proof (induction pre rule: rev_induct)
  case Nil
  from assms(1,2) show ?case by (simp add: run_def init_def)
next
  case (snoc e pre)
  then have "\<not> killed (run opts pre) \<and> sent (run opts pre) = [] \<and> \<not> killTimer (run opts pre)"
    and "e \<noteq> Message (Str k)" and "e \<noteq> SafetyTimerFires"
    by simp_all
  with assms(1) show ?case
    unfolding run_snoc by (intro step_before_trigger) simp_all
qed

lemma step_trigger:
  assumes "killOnMessage opts = Some k" and "k \<noteq> []" and "\<not> killed s" and "sent s = []"
  shows "killed (step opts s (Message (Str k))) \<and> sent (step opts s (Message (Str k))) = [signal opts]"
  using assms by (simp add: Let_def)

text \<open>
  Claim C5. With a message trigger (\<^verbatim>\<open>killOnMessage\<close> a non-empty string) no run dispatches
  more than one kill. As long as neither the trigger message nor the safety timeout has
  occurred, nothing has been sent; the handler of the first trigger message sends the
  configured signal; and whatever follows (further trigger messages, timers, the exit)
  sends nothing more.
\<close>

theorem crashTest_message_trigger_once:
  "killOnMessage opts = Some k \<and> k \<noteq> [] \<longrightarrow>
     length (sent (run opts evs)) \<le> 1
     \<and> \<not> killTimer (init opts)
     \<and> ((\<forall>e \<in> set pre. e \<noteq> Message (Str k) \<and> e \<noteq> SafetyTimerFires) \<longrightarrow>
           sent (run opts pre) = []
           \<and> sent (run opts (pre @ [Message (Str k)])) = [signal opts]
           \<and> sent (run opts (pre @ [Message (Str k)] @ post)) = [signal opts])"
proof (intro impI conjI)
  assume k: "killOnMessage opts = Some k \<and> k \<noteq> []"
  show "length (sent (run opts evs)) \<le> 1" by (rule run_sent_length)
  from k show "\<not> killTimer (init opts)" by (simp add: init_def)
  assume pre: "\<forall>e \<in> set pre. e \<noteq> Message (Str k) \<and> e \<noteq> SafetyTimerFires"
  from k pre have b: "\<not> killed (run opts pre) \<and> sent (run opts pre) = [] \<and> \<not> killTimer (run opts pre)"
    using run_before_trigger [of opts k pre] by blast
  then show "sent (run opts pre) = []" by simp
  from k b have t: "killed (run opts (pre @ [Message (Str k)]))
      \<and> sent (run opts (pre @ [Message (Str k)])) = [signal opts]"
    unfolding run_snoc using step_trigger [of opts k "run opts pre"] by blast
  then show "sent (run opts (pre @ [Message (Str k)])) = [signal opts]" by simp
  from t foldl_after_kill [of "run opts (pre @ [Message (Str k)])" opts post]
  show "sent (run opts (pre @ [Message (Str k)] @ post)) = [signal opts]"
    by (simp add: run_append [of opts "pre @ [Message (Str k)]" post, simplified])
qed

theorem crashTest_message_trigger_once_witness:
  "killOnMessage trigger_opts = Some ''inserting''
   \<and> sent (run trigger_opts [Message (Str ''ready''), KillTimerFires]) = []
   \<and> sent (run trigger_opts ([Message (Str ''ready''), KillTimerFires] @ [Message (Str ''inserting'')]))
       = [''SIGKILL'']
   \<and> sent (run trigger_opts ([Message (Str ''ready''), KillTimerFires] @ [Message (Str ''inserting'')]
         @ [Message (Str ''inserting''), KillTimerFires, SafetyTimerFires, Exit None (Some ''SIGKILL'')]))
       = [''SIGKILL'']"
proof -
  have k: "killOnMessage trigger_opts = Some ''inserting'' \<and> ''inserting'' \<noteq> []"
    by (simp add: trigger_opts_def)
  have pre: "\<forall>e \<in> set [Message (Str ''ready''), KillTimerFires].
      e \<noteq> Message (Str ''inserting'') \<and> e \<noteq> SafetyTimerFires"
    by simp
  have sg: "signal trigger_opts = ''SIGKILL''" by (simp add: trigger_opts_def)
  from crashTest_message_trigger_once
    [of trigger_opts "''inserting''" "[]" "[Message (Str ''ready''), KillTimerFires]"
        "[Message (Str ''inserting''), KillTimerFires, SafetyTimerFires, Exit None (Some ''SIGKILL'')]"]
    k pre
  show ?thesis unfolding sg by blast
qed

lemma step_safety_armed:
  "e \<noteq> SafetyTimerFires \<Longrightarrow> safetyTimer s \<Longrightarrow> safetyTimer (step opts s e)"
  by (cases e) (auto simp: Let_def split: option.splits)

lemma run_safety_armed:
  "\<forall>e \<in> set pre. e \<noteq> SafetyTimerFires \<Longrightarrow> safetyTimer (run opts pre)"
proof (induction pre rule: rev_induct)
  case Nil
  show ?case by (simp add: run_def init_def)
next
  case (snoc e pre)
  then show ?case unfolding run_snoc by (intro step_safety_armed) simp_all
qed

text \<open>
  The safety timeout is a second path to a kill. When it fires before the first trigger
  message it sends \<^verbatim>\<open>SIGKILL\<close>, and a trigger message that arrives later sends nothing.
\<close>

lemma crashTest_safety_before_trigger:
  assumes "killOnMessage opts = Some k" and "k \<noteq> []"
    and "\<forall>e \<in> set pre. e \<noteq> Message (Str k) \<and> e \<noteq> SafetyTimerFires"
  shows "sent (run opts (pre @ [SafetyTimerFires] @ post)) = [''SIGKILL'']"
proof -
  from run_before_trigger [OF assms]
  have b: "\<not> killed (run opts pre)" "sent (run opts pre) = []" by simp_all
  from assms(3) have a: "safetyTimer (run opts pre)" by (intro run_safety_armed) simp
  from a b have "killed (run opts (pre @ [SafetyTimerFires]))
      \<and> sent (run opts (pre @ [SafetyTimerFires])) = [''SIGKILL'']"
    unfolding run_snoc by (simp add: Let_def)
  with foldl_after_kill [of "run opts (pre @ [SafetyTimerFires])" opts post]
  show ?thesis by (simp add: run_append [of opts "pre @ [SafetyTimerFires]" post, simplified])
qed

text \<open>
  Claim C10. At the exit event the promise resolves with \<open>workerKilled\<close> true exactly when
  the harness has handed a signal to \<^verbatim>\<open>child.kill\<close> (from the message handler, the kill timer
  or the safety timer) or the exit signal is the requested signal; the exit code and the
  exit signal are recorded as observed. The resolved object holds the array of messages
  itself, so whatever happens after the exit event leaves every field as it was resolved
  except \<open>workerMessages\<close>, which goes on showing each message that arrives. So a worker that
  exits by itself, with any exit code, before any kill was dispatched yields
  \<open>workerKilled = False\<close>.
\<close>

theorem crashTest_workerKilled:
  "promise (run opts evs) = None \<longrightarrow>
     (\<exists>r. promise (run opts (evs @ [Exit code sig])) = Some r
         \<and> workerMessages r = messages (run opts evs)
         \<and> promise (run opts (evs @ [Exit code sig] @ post))
             = Some (r\<lparr>workerMessages := messages (run opts (evs @ [Exit code sig] @ post))\<rparr>)
         \<and> (workerKilled r \<longleftrightarrow> sent (run opts evs) \<noteq> [] \<or> sig = Some (signal opts))
         \<and> workerExitCode r = code \<and> workerSignal r = sig
         \<and> (sent (run opts evs) = [] \<and> sig = None \<longrightarrow> \<not> workerKilled r))"
proof
  assume n: "promise (run opts evs) = None"
  define r where "r = \<lparr>workerKilled = (sig = Some (signal opts) \<or> killed (run opts evs)),
      workerError = error_seen (run opts evs), workerMessages = messages (run opts evs),
      workerExitCode = code, workerSignal = sig,
      stdout = out (run opts evs), stderr = err (run opts evs)\<rparr>"
  from n have p: "promise (run opts (evs @ [Exit code sig])) = Some r"
    unfolding run_snoc by (simp add: r_def)
  have m: "workerMessages r = messages (run opts evs)" by (simp add: r_def)
  have "messages (run opts (evs @ [Exit code sig])) = messages (run opts evs)"
    unfolding run_snoc by (simp add: Let_def split: option.splits)
  with m have m': "workerMessages r = messages (run opts (evs @ [Exit code sig]))" by simp
  have q: "promise (run opts (evs @ [Exit code sig] @ post))
      = Some (r\<lparr>workerMessages := messages (run opts (evs @ [Exit code sig] @ post))\<rparr>)"
    using foldl_promise_alias [OF p m', of opts post]
    by (simp add: run_append [of opts "evs @ [Exit code sig]" post, simplified])
  have k: "workerKilled r \<longleftrightarrow> sent (run opts evs) \<noteq> [] \<or> sig = Some (signal opts)"
    using run_killed_iff_sent [of opts evs] by (auto simp: r_def)
  have "workerExitCode r = code \<and> workerSignal r = sig" by (simp add: r_def)
  with p q k m show "\<exists>r. promise (run opts (evs @ [Exit code sig])) = Some r
         \<and> workerMessages r = messages (run opts evs)
         \<and> promise (run opts (evs @ [Exit code sig] @ post))
             = Some (r\<lparr>workerMessages := messages (run opts (evs @ [Exit code sig] @ post))\<rparr>)
         \<and> (workerKilled r \<longleftrightarrow> sent (run opts evs) \<noteq> [] \<or> sig = Some (signal opts))
         \<and> workerExitCode r = code \<and> workerSignal r = sig
         \<and> (sent (run opts evs) = [] \<and> sig = None \<longrightarrow> \<not> workerKilled r)"
    by blast
qed

theorem crashTest_workerKilled_witness:
  "promise (run trigger_opts [Message (Str ''ready'')]) = None
   \<and> sent (run trigger_opts [Message (Str ''ready'')]) = []
   \<and> (\<exists>r. promise (run trigger_opts ([Message (Str ''ready'')] @ [Exit (Some 1) None])) = Some r
         \<and> \<not> workerKilled r \<and> workerExitCode r = Some 1 \<and> workerSignal r = None
         \<and> workerMessages r = [Str ''ready'']
         \<and> promise (run trigger_opts
               ([Message (Str ''ready'')] @ [Exit (Some 1) None] @ [Message (Str ''late'')]))
             = Some (r\<lparr>workerMessages := [Str ''ready'', Str ''late'']\<rparr>))"
proof -
  have n: "promise (run trigger_opts [Message (Str ''ready'')]) = None"
    by (simp add: run_def init_def trigger_opts_def Let_def)
  have s: "sent (run trigger_opts [Message (Str ''ready'')]) = []"
    by (simp add: run_def init_def trigger_opts_def Let_def)
  have m: "messages (run trigger_opts [Message (Str ''ready'')]) = [Str ''ready'']"
    by (simp add: run_def init_def trigger_opts_def Let_def)
  have l: "messages (run trigger_opts
        ([Message (Str ''ready'')] @ [Exit (Some 1) None] @ [Message (Str ''late'')]))
      = [Str ''ready'', Str ''late'']"
    by (simp add: run_def init_def trigger_opts_def Let_def)
  from crashTest_workerKilled
    [of trigger_opts "[Message (Str ''ready'')]" "Some 1" None "[Message (Str ''late'')]"] n s
  show ?thesis unfolding m l by blast
qed

text \<open>
  Claim C4. The safety timer is armed in every run, whatever the strategy and the signal.
  Its handler sends \<^verbatim>\<open>SIGKILL\<close> only while \<open>killed\<close> is still false, and \<open>killed\<close> records that a
  kill was dispatched, not that the worker died. With \<^verbatim>\<open>signal: 'SIGTERM'\<close> and a worker that
  survives it, the kill timer sends \<^verbatim>\<open>SIGTERM\<close>, the safety timer then fires and sends
  nothing, and the promise is still unresolved.
\<close>

theorem crashTest_safety_timeout_skipped:
  "safetyTimer (init sigterm_opts)
   \<and> sent (run sigterm_opts [KillTimerFires]) = [''SIGTERM'']
   \<and> sent (run sigterm_opts [KillTimerFires, SafetyTimerFires]) = [''SIGTERM'']
   \<and> \<not> safetyTimer (run sigterm_opts [KillTimerFires, SafetyTimerFires])
   \<and> promise (run sigterm_opts [KillTimerFires, SafetyTimerFires]) = None"
  by (simp add: run_def init_def sigterm_opts_def Let_def)

lemma safety_timer_always_armed: "safetyTimer (init opts)"
  by (simp add: init_def)

lemma safety_timer_after_kill: "killed s \<Longrightarrow> sent (step opts s SafetyTimerFires) = sent s"
  by (simp add: Let_def)

lemma safety_timer_without_kill:
  "safetyTimer s \<Longrightarrow> \<not> killed s \<Longrightarrow> sent (step opts s SafetyTimerFires) = sent s @ [''SIGKILL'']"
  by (simp add: Let_def)

section \<open>Properties of the verification pipeline\<close>

lemma check_rows_logging:
  "check_rows (logging respond) failed rs log acc
     = (acc @ row_issues respond failed rs, log @ map (\<lambda>r. count_sql (field r ''tablename'')) rs)"
proof (induction rs arbitrary: log acc)
  case Nil
  show ?case by (simp add: row_issues_def)
next
  case (Cons r rs)
  show ?case
  proof (cases "respond (count_sql (field r ''tablename''))")
    case (Inl m)
    then show ?thesis
      using Cons [of "log @ [count_sql (field r ''tablename'')]" "acc @ [failed r m]"]
      by (simp add: logging_def row_issues_def)
  next
    case (Inr rows)
    then show ?thesis
      using Cons [of "log @ [count_sql (field r ''tablename'')]" acc]
      by (simp add: logging_def row_issues_def)
  qed
qed

lemma verifyIntegrity_intact_iff:
  "intact (fst (verifyIntegrity q h)) \<longleftrightarrow> issues (fst (verifyIntegrity q h)) = []"
  by (simp add: verifyIntegrity_def Let_def split: prod.splits sum.splits)

lemma verifyIntegrity_baseline_fails:
  "q h health_sql = (Inl m, h1) \<Longrightarrow>
     verifyIntegrity q h = (\<lparr>intact = False, issues = [''Basic query failed: '' @ m]\<rparr>, h1)"
  by (simp add: verifyIntegrity_def)

lemma verifyIntegrity_logging_ok:
  assumes "respond health_sql = Inr rs"
  shows "issues (fst (verifyIntegrity (logging respond) log))
       = layer_issues respond tables_sql ''Table listing failed: '' count_failed
         @ layer_issues respond indexes_sql ''Index listing failed: '' index_failed"
    and "snd (verifyIntegrity (logging respond) log)
       = log @ [health_sql] @ layer_queries respond tables_sql @ layer_queries respond indexes_sql"
proof -
  have l: "\<And>lg sql. logging respond lg sql = (respond sql, lg @ [sql])"
    by (simp add: logging_def)
  show "issues (fst (verifyIntegrity (logging respond) log))
       = layer_issues respond tables_sql ''Table listing failed: '' count_failed
         @ layer_issues respond indexes_sql ''Index listing failed: '' index_failed"
    by (simp add: verifyIntegrity_def assms Let_def l check_rows_logging layer_issues_def
        split: sum.splits prod.splits)
  show "snd (verifyIntegrity (logging respond) log)
       = log @ [health_sql] @ layer_queries respond tables_sql @ layer_queries respond indexes_sql"
    by (simp add: verifyIntegrity_def assms Let_def l check_rows_logging layer_queries_def
        split: sum.splits prod.splits)
qed

text \<open>
  Claim C3, as the claim states it, fails: when the baseline query fails, \<open>verifyIntegrity\<close>
  returns at once. On an engine that rejects every statement the only statement run is the
  baseline query, so neither the table listing nor the index listing is attempted.
\<close>

theorem verifyIntegrity_stops_after_baseline:
  "fst (verifyIntegrity (logging dead_engine) [])
     = \<lparr>intact = False, issues = [''Basic query failed: connection lost'']\<rparr>
   \<and> snd (verifyIntegrity (logging dead_engine) []) = [health_sql]
   \<and> tables_sql \<notin> set (snd (verifyIntegrity (logging dead_engine) []))
   \<and> indexes_sql \<notin> set (snd (verifyIntegrity (logging dead_engine) []))"
proof -
  have "logging dead_engine [] health_sql = (Inl ''connection lost'', [health_sql])"
    by (simp add: logging_def dead_engine_def)
  then have v: "verifyIntegrity (logging dead_engine) []
      = (\<lparr>intact = False, issues = [''Basic query failed: '' @ ''connection lost'']\<rparr>, [health_sql])"
    by (rule verifyIntegrity_baseline_fails)
  have "tables_sql \<noteq> health_sql" "indexes_sql \<noteq> health_sql"
    by (simp_all add: tables_sql_def indexes_sql_def health_sql_def nl_def)
  with v show ?thesis by simp
qed

text \<open>
  Claim C3, amended. \<open>verifyIntegrity\<close> runs the baseline query first. When it fails, the
  report has that one issue and \<open>intact = False\<close>, and no further statement is run. When it
  succeeds, the table layer and then the index layer are both run (the index layer also
  when the table listing failed); each layer adds one issue for a failed listing, or else
  one issue per row whose count query fails, in order. In every case \<open>intact\<close> is true
  exactly when \<open>issues\<close> is empty.
\<close>

theorem verifyIntegrity_layers:
  "(intact (fst (verifyIntegrity q h)) \<longleftrightarrow> issues (fst (verifyIntegrity q h)) = [])
   \<and> (q h health_sql = (Inl m, h1) \<longrightarrow>
        verifyIntegrity q h = (\<lparr>intact = False, issues = [''Basic query failed: '' @ m]\<rparr>, h1))
   \<and> (respond health_sql = Inl m \<longrightarrow>
        verifyIntegrity (logging respond) log
          = (\<lparr>intact = False, issues = [''Basic query failed: '' @ m]\<rparr>, log @ [health_sql]))
   \<and> (respond health_sql = Inr rs \<longrightarrow>
        issues (fst (verifyIntegrity (logging respond) log))
          = layer_issues respond tables_sql ''Table listing failed: '' count_failed
            @ layer_issues respond indexes_sql ''Index listing failed: '' index_failed
        \<and> snd (verifyIntegrity (logging respond) log)
          = log @ [health_sql] @ layer_queries respond tables_sql
              @ layer_queries respond indexes_sql)"
proof (intro conjI impI)
  show "intact (fst (verifyIntegrity q h)) \<longleftrightarrow> issues (fst (verifyIntegrity q h)) = []"
    by (rule verifyIntegrity_intact_iff)
next
  assume "q h health_sql = (Inl m, h1)"
  then show "verifyIntegrity q h = (\<lparr>intact = False, issues = [''Basic query failed: '' @ m]\<rparr>, h1)"
    by (rule verifyIntegrity_baseline_fails)
next
  assume "respond health_sql = Inl m"
  then have "logging respond log health_sql = (Inl m, log @ [health_sql])"
    by (simp add: logging_def)
  then show "verifyIntegrity (logging respond) log
          = (\<lparr>intact = False, issues = [''Basic query failed: '' @ m]\<rparr>, log @ [health_sql])"
    by (rule verifyIntegrity_baseline_fails)
next
  assume r: "respond health_sql = Inr rs"
  show "issues (fst (verifyIntegrity (logging respond) log))
          = layer_issues respond tables_sql ''Table listing failed: '' count_failed
            @ layer_issues respond indexes_sql ''Index listing failed: '' index_failed"
    using verifyIntegrity_logging_ok(1) [of respond rs log] r by simp
  show "snd (verifyIntegrity (logging respond) log)
          = log @ [health_sql] @ layer_queries respond tables_sql
              @ layer_queries respond indexes_sql"
    using verifyIntegrity_logging_ok(2) [of respond rs log] r by simp
qed

lemma sql_distinct:
  "tables_sql \<noteq> health_sql" "indexes_sql \<noteq> health_sql" "indexes_sql \<noteq> tables_sql"
  "count_sql t \<noteq> health_sql" "count_sql t \<noteq> tables_sql" "count_sql t \<noteq> indexes_sql"
  by (simp_all add: tables_sql_def indexes_sql_def health_sql_def count_sql_def nl_def)

lemma torn_engine_answers:
  "torn_engine health_sql = Inr [[(''health_check'', ''1'')]]"
  "torn_engine tables_sql = Inr [[(''tablename'', ''items'')], [(''tablename'', ''orders'')]]"
  "torn_engine indexes_sql = Inr [[(''indexname'', ''orders_pkey''), (''tablename'', ''orders'')]]"
  "torn_engine (count_sql ''orders'') = Inl ''could not read block 0''"
  "torn_engine (count_sql ''items'') = Inr [[(''count'', ''3'')]]"
  by (simp_all add: torn_engine_def sql_distinct) (simp add: count_sql_def)

theorem verifyIntegrity_layers_witness:
  "torn_engine health_sql = Inr [[(''health_check'', ''1'')]]
   \<and> issues (fst (verifyIntegrity (logging torn_engine) []))
       = [''Count on orders failed: could not read block 0'',
          ''Index check on orders_pkey failed: could not read block 0'']
   \<and> \<not> intact (fst (verifyIntegrity (logging torn_engine) []))
   \<and> snd (verifyIntegrity (logging torn_engine) [])
       = [health_sql, tables_sql, count_sql ''items'', count_sql ''orders'',
          indexes_sql, count_sql ''orders'']
   \<and> verifyIntegrity (logging dead_engine) []
       = (\<lparr>intact = False, issues = [''Basic query failed: connection lost'']\<rparr>, [health_sql])"
proof -
  note t = verifyIntegrity_layers
    [where respond = torn_engine and rs = "[[(''health_check'', ''1'')]]" and log = "[]"
       and q = "logging torn_engine" and h = "[]"]
  note d = verifyIntegrity_layers
    [where respond = dead_engine and m = "''connection lost''" and log = "[]"
       and q = "logging dead_engine" and h = "[]" and ?h1.0 = "[health_sql]"]
  have ti: "layer_issues torn_engine tables_sql ''Table listing failed: '' count_failed
      = [''Count on orders failed: could not read block 0'']"
    by (simp add: layer_issues_def row_issues_def torn_engine_answers field_def count_failed_def)
  have ii: "layer_issues torn_engine indexes_sql ''Index listing failed: '' index_failed
      = [''Index check on orders_pkey failed: could not read block 0'']"
    by (simp add: layer_issues_def row_issues_def torn_engine_answers field_def index_failed_def)
  have tq: "layer_queries torn_engine tables_sql = [tables_sql, count_sql ''items'', count_sql ''orders'']"
    by (simp add: layer_queries_def torn_engine_answers field_def)
  have iq: "layer_queries torn_engine indexes_sql = [indexes_sql, count_sql ''orders'']"
    by (simp add: layer_queries_def torn_engine_answers field_def)
  have dh: "dead_engine health_sql = Inl ''connection lost''" by (simp add: dead_engine_def)
  from t torn_engine_answers(1)
  have 1: "issues (fst (verifyIntegrity (logging torn_engine) []))
       = [''Count on orders failed: could not read block 0'',
          ''Index check on orders_pkey failed: could not read block 0'']"
    and 2: "snd (verifyIntegrity (logging torn_engine) [])
       = [health_sql, tables_sql, count_sql ''items'', count_sql ''orders'',
          indexes_sql, count_sql ''orders'']"
    and 3: "intact (fst (verifyIntegrity (logging torn_engine) []))
       \<longleftrightarrow> issues (fst (verifyIntegrity (logging torn_engine) [])) = []"
    by (simp_all add: ti ii tq iq)
  from d dh have 4: "verifyIntegrity (logging dead_engine) []
       = (\<lparr>intact = False, issues = [''Basic query failed: connection lost'']\<rparr>, [health_sql])"
    by simp
  from 1 2 3 4 torn_engine_answers(1) show ?thesis by simp
qed

section \<open>Properties of opening under a timeout\<close>

lemma tryOpen_shape:
  "tryOpen tf a ms = Inr res \<Longrightarrow>
     (success res \<longleftrightarrow> db res \<noteq> None) \<and> (success res \<longleftrightarrow> error res = None)"
  by (auto simp: tryOpen_def split: open_attempt.splits sum.splits)

lemma tryOpen_success:
  "tryOpen tf a ms = Inr res \<Longrightarrow> success res \<Longrightarrow>
     \<exists>h t. a = Constructed h (ReadyAt t) \<and> t \<le> timer_delay ms \<and> db res = Some h"
  by (auto simp: tryOpen_def race_def Let_def split: open_attempt.splits sum.splits readiness.splits if_splits)

lemma tryOpen_timeout:
  assumes "r = Pending \<or> (\<exists>t. timer_delay ms < t \<and> (r = ReadyAt t \<or> (\<exists>e. r = RejectsAt t e)))"
  shows "tryOpen tf (Constructed h r) ms
       = Inr \<lparr>success = False, db = None, error = Some (Error (timeout_message ms))\<rparr>"
  using assms by (auto simp: tryOpen_def race_def Let_def)

lemma tryOpen_rejected:
  "t < timer_delay ms \<Longrightarrow>
     tryOpen tf (Constructed h (RejectsAt t e)) ms = Inr \<lparr>success = False, db = None, error = Some e\<rparr>"
  by (simp add: tryOpen_def race_def Let_def)

text \<open>
  Claim C6. \<open>tryOpen\<close> races \<^verbatim>\<open>db.waitReady\<close> against a timer. Every result it returns has the
  shape success with a handle and no error, or failure with no handle and an error. When
  \<^verbatim>\<open>waitReady\<close> has not settled when the timer fires, the result is the failure whose error
  is the time-out error, never a success; a success means \<^verbatim>\<open>waitReady\<close> resolved no later
  than the timer. A rejection of \<^verbatim>\<open>waitReady\<close> before the timer is returned with the
  engine's own error, so the two failures differ unless the engine rejects with the very
  text of the time-out error. For a delay between 1 and \<open>2 ^ 31 - 1\<close> the timer fires after
  \<open>timeoutMs\<close> milliseconds.
\<close>

theorem tryOpen_timeout_is_failure:
  "(r = Pending \<or> (\<exists>t. timer_delay ms < t \<and> (r = ReadyAt t \<or> (\<exists>e. r = RejectsAt t e)))
      \<longrightarrow> tryOpen tf (Constructed h r) ms
            = Inr \<lparr>success = False, db = None, error = Some (Error (timeout_message ms))\<rparr>)
   \<and> (tryOpen tf a ms = Inr res \<longrightarrow>
         (success res \<longleftrightarrow> db res \<noteq> None) \<and> (success res \<longleftrightarrow> error res = None))
   \<and> (tryOpen tf a ms = Inr res \<and> success res \<longrightarrow>
         (\<exists>h' t. a = Constructed h' (ReadyAt t) \<and> t \<le> timer_delay ms \<and> db res = Some h'))
   \<and> (t < timer_delay ms \<longrightarrow>
         tryOpen tf (Constructed h (RejectsAt t e)) ms
           = Inr \<lparr>success = False, db = None, error = Some e\<rparr>
         \<and> (e \<noteq> Error (timeout_message ms) \<longrightarrow>
              tryOpen tf (Constructed h (RejectsAt t e)) ms \<noteq> tryOpen tf (Constructed h Pending) ms))
   \<and> (1 \<le> ms \<and> ms \<le> 2147483647 \<longrightarrow> timer_delay ms = nat ms)"
proof (intro conjI impI)
  assume "r = Pending \<or> (\<exists>t. timer_delay ms < t \<and> (r = ReadyAt t \<or> (\<exists>e. r = RejectsAt t e)))"
  then show "tryOpen tf (Constructed h r) ms
            = Inr \<lparr>success = False, db = None, error = Some (Error (timeout_message ms))\<rparr>"
    by (rule tryOpen_timeout)
next
  assume "tryOpen tf a ms = Inr res"
  then show "success res \<longleftrightarrow> db res \<noteq> None" and "success res \<longleftrightarrow> error res = None"
    using tryOpen_shape [of tf a ms res] by blast+
next
  assume "tryOpen tf a ms = Inr res \<and> success res"
  then show "\<exists>h' t. a = Constructed h' (ReadyAt t) \<and> t \<le> timer_delay ms \<and> db res = Some h'"
    using tryOpen_success [of tf a ms res] by simp
next
  assume t: "t < timer_delay ms"
  then show r: "tryOpen tf (Constructed h (RejectsAt t e)) ms
           = Inr \<lparr>success = False, db = None, error = Some e\<rparr>"
    by (rule tryOpen_rejected)
  assume "e \<noteq> Error (timeout_message ms)"
  then show "tryOpen tf (Constructed h (RejectsAt t e)) ms \<noteq> tryOpen tf (Constructed h Pending) ms"
    unfolding r by (simp add: tryOpen_timeout)
next
  assume "1 \<le> ms \<and> ms \<le> 2147483647"
  then show "timer_delay ms = nat ms" by (simp add: timer_delay_def)
qed

lemma ex_timeout_message:
  "timeout_message 15000 = ''PGlite open timed out after 15000ms (likely corrupted)''"
  by (simp add: timeout_message_def num_str_def nat_str.simps digits_def)

theorem tryOpen_timeout_is_failure_witness:
  "timer_delay 15000 = 15000
   \<and> tryOpen True (Constructed ''handle'' Pending) 15000
       = Inr \<lparr>success = False, db = None,
              error = Some (Error ''PGlite open timed out after 15000ms (likely corrupted)'')\<rparr>
   \<and> tryOpen True (Constructed ''handle'' (ReadyAt 20000)) 15000
       = Inr \<lparr>success = False, db = None,
              error = Some (Error ''PGlite open timed out after 15000ms (likely corrupted)'')\<rparr>
   \<and> tryOpen True (Constructed ''handle'' (RejectsAt 40 (Error ''Aborted()''))) 15000
       = Inr \<lparr>success = False, db = None, error = Some (Error ''Aborted()'')\<rparr>
   \<and> tryOpen True (Constructed ''handle'' (RejectsAt 40 (Error ''Aborted()''))) 15000
       \<noteq> tryOpen True (Constructed ''handle'' Pending) 15000
   \<and> tryOpen True (Constructed ''handle'' (ReadyAt 120)) 15000
       = Inr \<lparr>success = True, db = Some ''handle'', error = None\<rparr>
   \<and> (\<exists>t. t \<le> timer_delay 15000
         \<and> db \<lparr>success = True, db = Some ''handle'', error = None\<rparr> = Some ''handle'')"
proof -
  have d: "timer_delay 15000 = 15000" by (simp add: timer_delay_def)
  have ok: "tryOpen True (Constructed ''handle'' (ReadyAt 120)) 15000
       = Inr \<lparr>success = True, db = Some ''handle'', error = None\<rparr>
      \<and> success \<lparr>success = True, db = Some ''handle'', error = None\<rparr>"
    by (simp add: tryOpen_def race_def Let_def d)
  note s = tryOpen_timeout_is_failure
    [where tf = True and ms = 15000 and a = "Constructed ''handle'' (ReadyAt 120)"
       and res = "\<lparr>success = True, db = Some ''handle'', error = None\<rparr>"
       and r = Pending and h = "''handle''" and t = 40 and e = "Error ''Aborted()''"]
  from s [THEN conjunct2, THEN conjunct2, THEN conjunct1, THEN mp, OF ok]
  have 5: "\<exists>t. t \<le> timer_delay 15000
         \<and> db \<lparr>success = True, db = Some ''handle'', error = None\<rparr> = Some ''handle''"
    by auto
  have b: "(1::int) \<le> 15000 \<and> (15000::int) \<le> 2147483647" by simp
  have late: "\<exists>t. timer_delay 15000 < t
      \<and> (ReadyAt 20000 = ReadyAt t \<or> (\<exists>e. ReadyAt 20000 = RejectsAt t e))"
    by (simp add: d)
  have early: "40 < timer_delay 15000" by (simp add: d)
  have ne: "Error ''Aborted()'' \<noteq> Error (timeout_message 15000)"
    by (simp add: ex_timeout_message)
  note p = tryOpen_timeout_is_failure
    [where tf = True and h = "''handle''" and r = Pending and ms = 15000 and t = 40
       and e = "Error ''Aborted()''" and a = "Constructed ''handle'' Pending"]
  note l = tryOpen_timeout_is_failure
    [where tf = True and h = "''handle''" and r = "ReadyAt 20000" and ms = 15000 and t = 40
       and e = "Error ''Aborted()''" and a = "Constructed ''handle'' Pending"]
  from p early ne have 1: "tryOpen True (Constructed ''handle'' Pending) 15000
       = Inr \<lparr>success = False, db = None, error = Some (Error (timeout_message 15000))\<rparr>"
    and 3: "tryOpen True (Constructed ''handle'' (RejectsAt 40 (Error ''Aborted()''))) 15000
       = Inr \<lparr>success = False, db = None, error = Some (Error ''Aborted()'')\<rparr>"
    and 4: "tryOpen True (Constructed ''handle'' (RejectsAt 40 (Error ''Aborted()''))) 15000
       \<noteq> tryOpen True (Constructed ''handle'' Pending) 15000"
    by blast+
  from l late have 2: "tryOpen True (Constructed ''handle'' (ReadyAt 20000)) 15000
       = Inr \<lparr>success = False, db = None, error = Some (Error (timeout_message 15000))\<rparr>"
    by blast
  from d 1 2 3 4 5 ok show ?thesis unfolding ex_timeout_message by blast
qed

end
